theory Spec2Isabelle
  imports Complex_Main
begin

section \<open>Data model (types.ts)\<close>

text \<open>
  JavaScript numbers are modelled as real numbers: every formula of the source is kept
  as written, and rounding is not modelled. A position or an Euler triple
  (\<^verbatim>\<open>[number, number, number]\<close>, \<^verbatim>\<open>THREE.Vector3\<close>) is a triple of reals.
\<close>

type_synonym vec3 = "real \<times> real \<times> real"

datatype AppMode = TREE | SCATTER | ZOOM

datatype Gesture = Closed_Fist | Open_Palm | Pointing_Up | Unknown | Pinch

datatype ParticleType = sphere | cube | photo | diamond | snowflake | bell | star

text \<open>
  \<^verbatim>\<open>ParticleData\<close>. The field \<^verbatim>\<open>id\<close> is called \<open>pid\<close> here. The field
  \<open>color\<close> is optional only because the source reads a colour out of an array at a
  computed index: \<open>None\<close> is the \<^verbatim>\<open>undefined\<close> of a read out of range.
\<close>

record ParticleData =
  pid :: string
  type :: ParticleType
  treePos :: vec3
  scatterPos :: vec3
  color :: "string option"
  textureUrl :: "string option"
  rotation :: vec3
  scale :: real

section \<open>Particle layout generator (utils/geometry)\<close>

definition COUNT :: nat where
  "COUNT = 1200"

definition RADIUS_BASE :: real where
  "RADIUS_BASE = 9.0"

definition HEIGHT :: real where
  "HEIGHT = 24"

definition colors_gold :: "string list" where
  "colors_gold = [''#FFD700'', ''#FDB931'', ''#D4AF37'']"

definition colors_red :: "string list" where
  "colors_red = [''#8B0000'', ''#DC143C'', ''#B22222'']"

definition colors_green :: "string list" where
  "colors_green = [''#006400'', ''#228B22'', ''#556B2F'']"

definition colors_silver :: "string list" where
  "colors_silver = [''#C0C0C0'', ''#E5E4E2'', ''#FFFFFF'']"

definition allColors :: "string list" where
  "allColors = colors_gold @ colors_red @ colors_green @ colors_silver"

text \<open>
  \<^verbatim>\<open>xs[Math.floor(u * xs.length)]\<close>: the element at the floored index, \<open>None\<close>
  (\<^verbatim>\<open>undefined\<close>) when the index falls outside the array.
\<close>

definition pick :: "string list \<Rightarrow> real \<Rightarrow> string option" where
  "pick xs u =
     (let k = \<lfloor>u * real (length xs)\<rfloor>
      in if 0 \<le> k \<and> nat k < length xs then Some (xs ! nat k) else None)"

text \<open>The decimal text of an index, as a template literal prints it.\<close>

definition digit :: "nat \<Rightarrow> char" where
  "digit d = ''0123456789'' ! d"

function toString :: "nat \<Rightarrow> string" where
  "toString n = (if n < 10 then [digit n] else toString (n div 10) @ [digit (n mod 10)])"
  by pat_completeness auto
termination
  by (relation "measure (\<lambda>n. n)") auto

declare toString.simps [simp del]

text \<open>
  \<^verbatim>\<open>Math.random()\<close> is an external source of numbers in \<open>[0, 1)\<close>. The generator
  takes the sequence of draws as \<open>rnd\<close> and threads the number \<open>k\<close> of draws made so
  far, so that each call of \<^verbatim>\<open>Math.random()\<close> is \<open>rnd k\<close> followed by \<open>k + 1\<close>,
  in the order in which the source evaluates them.
\<close>

type_synonym random = "nat \<Rightarrow> real"

text \<open>A uniform point of a ball of radius \<open>R\<close>: three draws, starting at draw \<open>k\<close>.\<close>

definition scatterPoint :: "real \<Rightarrow> random \<Rightarrow> nat \<Rightarrow> vec3" where
  "scatterPoint R rnd k =
     (let rScatter = R * root 3 (rnd k);
          sTheta = rnd (k + 1) * pi * 2;
          sPhi = arccos ((rnd (k + 2) * 2) - 1);
          sx = rScatter * sin sPhi * cos sTheta;
          sy = rScatter * sin sPhi * sin sTheta;
          sz = rScatter * cos sPhi
      in (sx, sy, sz))"

text \<open>The body of the photo loop for index \<open>i\<close> of \<open>helixCount\<close> photos.\<close>

definition photoT :: "nat \<Rightarrow> nat \<Rightarrow> real" where
  "photoT helixCount i = (let rawT = real i / real helixCount in 0.05 + (rawT * 0.8))"

definition photoTheta :: "nat \<Rightarrow> nat \<Rightarrow> real" where
  "photoTheta helixCount i = (let frequency = 8.0 in photoT helixCount i * pi * 2 * frequency)"

definition photoR :: "nat \<Rightarrow> nat \<Rightarrow> real" where
  "photoR helixCount i =
     (let heightFactor = (1 - photoT helixCount i) powr 0.8
      in heightFactor * RADIUS_BASE + 3.0)"

definition photoParticle :: "string list \<Rightarrow> nat \<Rightarrow> random \<Rightarrow> nat \<Rightarrow> ParticleData" where
  "photoParticle photos i rnd k =
     (let helixCount = length photos;
          t = photoT helixCount i;
          y = ((t * HEIGHT) - (HEIGHT / 2)) * 0.8;
          theta = photoTheta helixCount i;
          r = photoR helixCount i;
          x = cos theta * r;
          z = sin theta * r
      in \<lparr> pid = ''p-photo-'' @ toString i,
           type = photo,
           treePos = (x, y, z),
           scatterPos = scatterPoint 15 rnd k,
           color = Some ''#FFD700'',
           textureUrl = Some (photos ! i),
           rotation = (0, - theta + pi / 2, 0),
           scale = 0.8 \<rparr>)"

function photoLoop ::
  "string list \<Rightarrow> random \<Rightarrow> nat \<Rightarrow> nat \<Rightarrow> ParticleData list \<Rightarrow> ParticleData list \<times> nat" where
  "photoLoop photos rnd i k particles =
     (if i < length photos
      then photoLoop photos rnd (i + 1) (k + 3) (particles @ [photoParticle photos i rnd k])
      else (particles, k))"
  by pat_completeness auto
termination
  by (relation "measure (\<lambda>(photos, rnd, i, k, particles). length photos - i)") auto

declare photoLoop.simps [simp del]

text \<open>
  The body of the ornament loop for index \<open>i\<close>, starting at draw \<open>k\<close>: the particle
  and the number of draws made afterwards. The draws are, in order: the radius, the
  three of the scatter point, the scale, the colour index, \<open>rand\<close>, then one more in
  the snowflake branch (its colour) and in the sphere branch (the large bauble), and
  last the two rest rotations.
\<close>

definition ornamentParticle :: "nat \<Rightarrow> random \<Rightarrow> nat \<Rightarrow> ParticleData \<times> nat" where
  "ornamentParticle i rnd k =
     (let t = real i / real COUNT;
          angle = real i * 2.39996;
          y = (t * HEIGHT) - (HEIGHT / 2);
          heightFactor = (1 - t) powr 0.9;
          maxRadiusAtHeight = heightFactor * RADIUS_BASE;
          r = maxRadiusAtHeight * sqrt (rnd k * 0.9 + 0.1);
          x = cos angle * r;
          z = sin angle * r;
          sp = scatterPoint 18 rnd (k + 1);
          scale0 = rnd (k + 4) * 0.3 + 0.3;
          color0 = pick allColors (rnd (k + 5));
          rand = rnd (k + 6);
          (ty, col, sc, k') =
            (if rand > 0.95 then (snowflake, pick colors_silver (rnd (k + 7)), 0.6, k + 8)
             else if rand > 0.90 then (bell, Some ''#FFD700'', 0.7, k + 7)
             else if rand > 0.85 then (cube, Some (colors_red ! 0), 0.8, k + 7)
             else (sphere, color0, if rnd (k + 7) > 0.8 then 0.7 else scale0, k + 8))
      in (\<lparr> pid = ''p-'' @ toString i,
            type = ty,
            treePos = (x, y, z),
            scatterPos = sp,
            color = col,
            textureUrl = None,
            rotation = (rnd k' * pi, rnd (k' + 1) * pi, 0),
            scale = sc \<rparr>, k' + 2))"

function ornamentLoop ::
  "random \<Rightarrow> nat \<Rightarrow> nat \<Rightarrow> ParticleData list \<Rightarrow> ParticleData list \<times> nat" where
  "ornamentLoop rnd i k particles =
     (if i < COUNT
      then (case ornamentParticle i rnd k of
              (p, k') \<Rightarrow> ornamentLoop rnd (i + 1) k' (particles @ [p]))
      else (particles, k))"
  by pat_completeness auto
termination
  by (relation "measure (\<lambda>(rnd, i, k, particles). COUNT - i)") auto

declare ornamentLoop.simps [simp del]

definition topStar :: ParticleData where
  "topStar = \<lparr> pid = ''star'',
               type = star,
               treePos = (0, HEIGHT / 2 + 1.0, 0),
               scatterPos = (0, 0, 0),
               color = Some ''#FFD700'',
               textureUrl = None,
               rotation = (0, 0, 0),
               scale = 1.5 \<rparr>"

definition generateParticles :: "string list \<Rightarrow> random \<Rightarrow> ParticleData list" where
  "generateParticles photos rnd =
     (let (particles1, k1) =
            (if length photos > 0 then photoLoop photos rnd 0 0 [] else ([], 0));
          (particles2, k2) = ornamentLoop rnd 0 k1 particles1
      in particles2 @ [topStar])"

section \<open>The three.js operations the scene uses\<close>

text \<open>
  \<^verbatim>\<open>Vector3.normalize\<close> divides by \<^verbatim>\<open>length() || 1\<close>, so the zero vector stays
  zero; \<^verbatim>\<open>Vector3.lerp\<close> adds the scaled difference; \<^verbatim>\<open>MathUtils.lerp\<close> is the
  convex combination.
\<close>

definition vlength :: "vec3 \<Rightarrow> real" where
  "vlength v = (case v of (x, y, z) \<Rightarrow> sqrt (x * x + y * y + z * z))"

definition multiplyScalar :: "vec3 \<Rightarrow> real \<Rightarrow> vec3" where
  "multiplyScalar v s = (case v of (x, y, z) \<Rightarrow> (x * s, y * s, z * s))"

definition divideScalar :: "vec3 \<Rightarrow> real \<Rightarrow> vec3" where
  "divideScalar v s = multiplyScalar v (1 / s)"

definition vnormalize :: "vec3 \<Rightarrow> vec3" where
  "vnormalize v = divideScalar v (if vlength v = 0 then 1 else vlength v)"

definition dot :: "vec3 \<Rightarrow> vec3 \<Rightarrow> real" where
  "dot a b = (case (a, b) of ((ax, ay, az), (bx, by, bz)) \<Rightarrow> ax * bx + ay * by + az * bz)"

definition lerp :: "real \<Rightarrow> real \<Rightarrow> real \<Rightarrow> real" where
  "lerp x y t = (1 - t) * x + t * y"

definition vlerp :: "vec3 \<Rightarrow> vec3 \<Rightarrow> real \<Rightarrow> vec3" where
  "vlerp a v alpha =
     (case (a, v) of ((ax, ay, az), (vx, vy, vz)) \<Rightarrow>
        (ax + (vx - ax) * alpha, ay + (vy - ay) * alpha, az + (vz - az) * alpha))"

text \<open>
  A rotation about the vertical axis by \<open>angle\<close>, as an Euler rotation \<open>(0, angle, 0)\<close>
  acts on a vector: it takes the forward normal \<open>(0, 0, 1)\<close> of a plane to
  \<open>(sin angle, 0, cos angle)\<close>.
\<close>

definition rotateY :: "real \<Rightarrow> vec3 \<Rightarrow> vec3" where
  "rotateY angle v =
     (case v of (x, y, z) \<Rightarrow> (x * cos angle + z * sin angle, y, z * cos angle - x * sin angle))"

text \<open>
  A scene object (a particle's group, the camera): its position, its Euler rotation
  (in the default order \<^verbatim>\<open>XYZ\<close>) and its scale.
\<close>

record Object3D =
  o_position :: vec3
  o_rotation :: vec3
  o_scale :: vec3

text \<open>
  \<^verbatim>\<open>Object3D.lookAt\<close>. \<^verbatim>\<open>Matrix4.lookAt\<close> builds the three axes of the orientation:
  \<open>z\<close> points from the target to the eye, \<open>x\<close> is the normalised cross product
  of \<open>up\<close> and \<open>z\<close>, and \<open>y\<close> is the cross product of \<open>z\<close> and \<open>x\<close>; where a
  vector vanishes the library nudges it as written below. A camera is the eye and looks
  at the target; any other object takes the target as the eye. The object's rotation
  becomes the Euler angles of these axes (\<^verbatim>\<open>Euler.setFromRotationMatrix\<close>, order
  \<^verbatim>\<open>XYZ\<close>), whatever it was before. The objects of this scene have the default
  \<open>up\<close> and an untransformed parent, so their world position is \<open>o_position\<close>.
\<close>

type_synonym axes = "vec3 \<times> vec3 \<times> vec3"

definition DEFAULT_UP :: vec3 where
  "DEFAULT_UP = (0, 1, 0)"

definition subVectors :: "vec3 \<Rightarrow> vec3 \<Rightarrow> vec3" where
  "subVectors a b = (case (a, b) of ((ax, ay, az), (bx, by, bz)) \<Rightarrow> (ax - bx, ay - by, az - bz))"

definition lengthSq :: "vec3 \<Rightarrow> real" where
  "lengthSq v = (case v of (x, y, z) \<Rightarrow> x * x + y * y + z * z)"

definition crossVectors :: "vec3 \<Rightarrow> vec3 \<Rightarrow> vec3" where
  "crossVectors a b =
     (case (a, b) of ((ax, ay, az), (bx, by, bz)) \<Rightarrow>
        (ay * bz - az * by, az * bx - ax * bz, ax * by - ay * bx))"

definition Matrix4_lookAt :: "vec3 \<Rightarrow> vec3 \<Rightarrow> vec3 \<Rightarrow> axes" where
  "Matrix4_lookAt eye target up =
     (let z0 = subVectors eye target;
          z1 = (if lengthSq z0 = 0 then (case z0 of (zx, zy, zz) \<Rightarrow> (zx, zy, 1)) else z0);
          z2 = vnormalize z1;
          x0 = crossVectors up z2;
          z3 = (if lengthSq x0 = 0
                then vnormalize (case z2 of (zx, zy, zz) \<Rightarrow>
                       if \<bar>snd (snd up)\<bar> = 1 then (zx + 0.0001, zy, zz)
                       else (zx, zy, zz + 0.0001))
                else z2);
          x1 = (if lengthSq x0 = 0 then crossVectors up z3 else x0);
          x2 = vnormalize x1;
          y2 = crossVectors z3 x2
      in (x2, y2, z3))"

definition clamp :: "real \<Rightarrow> real \<Rightarrow> real \<Rightarrow> real" where
  "clamp v lo hi = max lo (min hi v)"

definition atan2 :: "real \<Rightarrow> real \<Rightarrow> real" where
  "atan2 y x =
     (if x > 0 then arctan (y / x)
      else if x < 0 then (if y \<ge> 0 then arctan (y / x) + pi else arctan (y / x) - pi)
      else if y > 0 then pi / 2
      else if y < 0 then - pi / 2
      else 0)"

definition Euler_setFromRotationMatrix :: "axes \<Rightarrow> vec3" where
  "Euler_setFromRotationMatrix m =
     (case m of ((m11, m21, m31), (m12, m22, m32), (m13, m23, m33)) \<Rightarrow>
        let ey = arcsin (clamp m13 (- 1) 1)
        in if \<bar>m13\<bar> < 0.9999999
           then (atan2 (- m23) m33, ey, atan2 (- m12) m11)
           else (atan2 m32 m22, ey, 0))"

definition Object3D_lookAt :: "bool \<Rightarrow> vec3 \<Rightarrow> Object3D \<Rightarrow> Object3D" where
  "Object3D_lookAt isCamera target obj =
     (let m1 = (if isCamera then Matrix4_lookAt (o_position obj) target DEFAULT_UP
                else Matrix4_lookAt target (o_position obj) DEFAULT_UP)
      in obj\<lparr>o_rotation := Euler_setFromRotationMatrix m1\<rparr>)"

section \<open>Focus selector (FocusManager)\<close>

text \<open>
  The frame callback either returns without calling \<^verbatim>\<open>onFocusChange\<close>, or calls it
  once with an id or with \<^verbatim>\<open>null\<close>.
\<close>

datatype focus_call = NoCall | onFocusChange "string option"

definition restPos :: "AppMode \<Rightarrow> ParticleData \<Rightarrow> vec3" where
  "restPos mode p =
     (case (treePos p, scatterPos p) of ((tx, ty, tz), (sx, sy, sz)) \<Rightarrow>
        (if mode = TREE then tx else sx,
         if mode = TREE then ty else sy,
         if mode = TREE then tz else sz))"

text \<open>\<open>maxDot\<close> starts at \<^verbatim>\<open>-Infinity\<close>, here \<open>None\<close>: every number is greater.\<close>

definition exceeds :: "real \<Rightarrow> real option \<Rightarrow> bool" where
  "exceeds d maxDot = (case maxDot of None \<Rightarrow> True | Some m \<Rightarrow> d > m)"

fun focusScan ::
  "vec3 \<Rightarrow> AppMode \<Rightarrow> ParticleData list \<Rightarrow> string option \<times> real option
     \<Rightarrow> string option \<times> real option" where
  "focusScan camDir mode [] best = best"
| "focusScan camDir mode (p # ps) (bestId, maxDot) =
     (let pos = vnormalize (restPos mode p);
          d = dot camDir pos
      in if exceeds d maxDot
         then focusScan camDir mode ps (Some (pid p), Some d)
         else focusScan camDir mode ps (bestId, maxDot))"

definition FocusManager :: "ParticleData list \<Rightarrow> AppMode \<Rightarrow> vec3 \<Rightarrow> focus_call" where
  "FocusManager particles mode cameraPosition =
     (if mode = ZOOM then NoCall
      else let photoParticles = filter (\<lambda>p. type p = photo) particles
           in if length photoParticles = 0 then NoCall
              else let camDir = vnormalize cameraPosition;
                       (bestId, maxDot) = focusScan camDir mode photoParticles (None, None)
                   in if (case maxDot of None \<Rightarrow> False | Some m \<Rightarrow> m > 0.65)
                      then onFocusChange bestId
                      else onFocusChange None)"

section \<open>Pose blender (ParticleInstance)\<close>

definition isCandidate :: "ParticleData \<Rightarrow> string option \<Rightarrow> bool" where
  "isCandidate data hoveredPhotoId = (hoveredPhotoId = Some (pid data))"

definition isSelected :: "ParticleData \<Rightarrow> AppMode \<Rightarrow> string option \<Rightarrow> bool" where
  "isSelected data mode hoveredPhotoId = (isCandidate data hoveredPhotoId \<and> mode = ZOOM)"

definition isHighlighted :: "ParticleData \<Rightarrow> AppMode \<Rightarrow> string option \<Rightarrow> bool" where
  "isHighlighted data mode hoveredPhotoId = (isCandidate data hoveredPhotoId \<and> mode \<noteq> ZOOM)"

definition isPhoto :: "ParticleData \<Rightarrow> bool" where
  "isPhoto data = (type data = photo)"

text \<open>
  The first half of the frame callback: the target position, the target scale and the
  three target angles, at clock time \<open>time\<close>.
\<close>

definition poseTarget ::
  "ParticleData \<Rightarrow> AppMode \<Rightarrow> string option \<Rightarrow> real \<Rightarrow> vec3 \<times> real \<times> vec3" where
  "poseTarget data mode hoveredPhotoId time =
     (let targetScale =
            (if isHighlighted data mode hoveredPhotoId then scale data * 1.3 else scale data);
          targetRot = rotation data
      in case scatterPos data of (sx, sy, sz) \<Rightarrow>
           if mode = TREE then (treePos data, targetScale, targetRot)
           else if mode = SCATTER then
             ((sx + cos (time * 0.2 + sy) * 0.05, sy + sin (time * 0.2 + sx) * 0.05, sz),
              targetScale, targetRot)
           else if mode = ZOOM then
             (if isSelected data mode hoveredPhotoId \<and> isPhoto data
              then ((0, 0, 6), 5.0, (0, 0, 0))
              else ((sx * 3.5, sy * 3.5, sz - 40), targetScale, targetRot))
           else ((0, 0, 0), targetScale, targetRot))"

definition lerpSpeed :: "ParticleData \<Rightarrow> AppMode \<Rightarrow> string option \<Rightarrow> real \<Rightarrow> real" where
  "lerpSpeed data mode hoveredPhotoId delta =
     (if isSelected data mode hoveredPhotoId \<and> isPhoto data then delta * 15 else delta * 2.5)"

text \<open>
  The condition of the last statement of the frame callback: the particles that
  receive the constant spin.
\<close>

definition spins :: "ParticleData \<Rightarrow> bool" where
  "spins data = (type data = diamond \<or> type data = star)"

text \<open>
  The frame callback on the particle's group: \<open>None\<close> is the unmounted group, for which
  the callback returns at once.
\<close>

definition ParticleInstance ::
  "ParticleData \<Rightarrow> AppMode \<Rightarrow> string option \<Rightarrow> real \<Rightarrow> real \<Rightarrow> vec3
     \<Rightarrow> Object3D option \<Rightarrow> Object3D option" where
  "ParticleInstance data mode hoveredPhotoId time delta cameraPosition meshRef =
     (case meshRef of
        None \<Rightarrow> None
      | Some mesh \<Rightarrow>
          (case poseTarget data mode hoveredPhotoId time of
             (targetPos, targetScale, (targetRotX, targetRotY, targetRotZ)) \<Rightarrow>
               let speed = lerpSpeed data mode hoveredPhotoId delta;
                   m1 = mesh\<lparr>o_position := vlerp (o_position mesh) targetPos speed\<rparr>;
                   currentScale = fst (o_scale m1);
                   newScale = lerp currentScale targetScale speed;
                   m2 = m1\<lparr>o_scale := (newScale, newScale, newScale)\<rparr>;
                   m3 = (if mode = SCATTER \<and> isPhoto data
                         then Object3D_lookAt False cameraPosition m2
                         else case o_rotation m2 of (rx, ry, rz) \<Rightarrow>
                                m2\<lparr>o_rotation := (lerp rx targetRotX speed,
                                                   lerp ry targetRotY speed,
                                                   lerp rz targetRotZ speed)\<rparr>);
                   m4 = (if spins data
                         then case o_rotation m3 of (rx, ry, rz) \<Rightarrow>
                                m3\<lparr>o_rotation := (rx, ry + delta * 0.5, rz)\<rparr>
                         else m3)
               in Some m4))"

section \<open>The particle groups of the scene (Visuals)\<close>

text \<open>
  \<^verbatim>\<open>Visuals\<close> renders one \<^verbatim>\<open>ParticleInstance\<close> for each particle, with the key
  \<^verbatim>\<open>p.id\<close>; each instance holds its group in a ref, and the group carries the live
  transform. A mounted instance is a pair of its \<^verbatim>\<open>data\<close> and its group. When the
  particle list changes, an instance whose key is still in the list is kept with its
  group and receives the new \<^verbatim>\<open>data\<close>; of the group's properties only \<^verbatim>\<open>position\<close>
  is a prop (\<^verbatim>\<open>data.treePos\<close>), and it is written again only if its value has changed;
  scale and rotation are left as the frames made them. A key that was not mounted gets
  a new group, at \<^verbatim>\<open>data.treePos\<close> with no rotation and scale one. Instances whose key
  has gone are dropped.
\<close>

type_synonym mounted = "ParticleData \<times> Object3D"

definition mountGroup :: "ParticleData \<Rightarrow> Object3D" where
  "mountGroup data = \<lparr> o_position = treePos data, o_rotation = (0, 0, 0), o_scale = (1, 1, 1) \<rparr>"

definition updateGroup :: "ParticleData \<Rightarrow> ParticleData \<Rightarrow> Object3D \<Rightarrow> Object3D" where
  "updateGroup prev data g =
     (if treePos data = treePos prev then g else g\<lparr>o_position := treePos data\<rparr>)"

definition Visuals_render :: "ParticleData list \<Rightarrow> mounted list \<Rightarrow> mounted list" where
  "Visuals_render ps insts =
     map (\<lambda>p. case find (\<lambda>(q, g). pid q = pid p) insts of
                 None \<Rightarrow> (p, mountGroup p)
               | Some (q, g) \<Rightarrow> (p, updateGroup q p g)) ps"

text \<open>One frame: the frame callback of every mounted instance.\<close>

definition Visuals_frame ::
  "AppMode \<Rightarrow> string option \<Rightarrow> real \<Rightarrow> real \<Rightarrow> vec3 \<Rightarrow> mounted list \<Rightarrow> mounted list" where
  "Visuals_frame mode hovered time delta cameraPosition insts =
     map (\<lambda>(p, g). (p, case ParticleInstance p mode hovered time delta cameraPosition (Some g) of
                           None \<Rightarrow> g | Some g' \<Rightarrow> g')) insts"

section \<open>Camera rig (CameraRig)\<close>

definition targetAzimuth :: "real \<Rightarrow> real" where
  "targetAzimuth handX = (handX - 0.5) * pi * 2.5"

definition targetPolar :: "real \<Rightarrow> real" where
  "targetPolar handY = (handY - 0.5) * 35"

definition orbit :: "real \<Rightarrow> real \<Rightarrow> real \<Rightarrow> Object3D \<Rightarrow> Object3D" where
  "orbit baseDistance handX handY camera =
     (let camX = sin (targetAzimuth handX) * baseDistance;
          camZ = cos (targetAzimuth handX) * baseDistance
      in case o_position camera of (px, py, pz) \<Rightarrow>
           Object3D_lookAt True (0, 0, 0)
             (camera\<lparr>o_position :=
                       (lerp px camX 0.1, lerp py (targetPolar handY) 0.1, lerp pz camZ 0.1)\<rparr>))"

definition CameraRig ::
  "real \<Rightarrow> real \<Rightarrow> real \<Rightarrow> real \<Rightarrow> AppMode \<Rightarrow> Object3D \<Rightarrow> Object3D" where
  "CameraRig handX handY handZ handRotation mode camera =
     (let c0 = (case o_rotation camera of (rx, ry, rz) \<Rightarrow> camera\<lparr>o_rotation := (rx, ry, 0)\<rparr>)
      in if mode = SCATTER then orbit 30 handX handY c0
         else if mode = TREE then orbit 28 handX handY c0
         else if mode = ZOOM then
           Object3D_lookAt True (0, 0, 0) (c0\<lparr>o_position := vlerp (o_position c0) (0, 0, 10) 0.05\<rparr>)
         else c0)"

text \<open>One turn is a full rotation.\<close>

definition turn :: real where
  "turn = 2 * pi"

section \<open>Debounced state (useDebouncedState)\<close>

text \<open>
  Time is counted in milliseconds. The hook holds the committed \<open>state\<close>, the pending
  \<open>tempState\<close>, and the timer of its effect: \<open>handler = Some d\<close> is a timeout that is
  due at time \<open>d\<close>, \<open>None\<close> is no timeout pending. The effect runs at mount and again
  whenever \<open>tempState\<close> (a dependency) has changed: its clean-up clears the timeout
  and its body sets a new one. Setting \<open>tempState\<close> to the value it has changes no
  dependency, so the effect does not run and the timeout stays. A timeout is taken to
  fire as soon as it is due, before anything else that happens at that time or later.
\<close>

record 'a debounced =
  state :: 'a
  tempState :: 'a
  handler :: "nat option"

definition useDebouncedState :: "'a \<Rightarrow> nat \<Rightarrow> nat \<Rightarrow> 'a debounced" where
  "useDebouncedState initialValue delay now =
     \<lparr> state = initialValue, tempState = initialValue, handler = Some (now + delay) \<rparr>"

definition timeout :: "'a debounced \<Rightarrow> 'a debounced" where
  "timeout s = s\<lparr>state := tempState s, handler := None\<rparr>"

definition elapse :: "nat \<Rightarrow> 'a debounced \<Rightarrow> 'a debounced" where
  "elapse now s =
     (case handler s of
        None \<Rightarrow> s
      | Some d \<Rightarrow> if d \<le> now then timeout s else s)"

definition setTempState :: "nat \<Rightarrow> nat \<Rightarrow> ('a \<Rightarrow> 'a) \<Rightarrow> 'a debounced \<Rightarrow> 'a debounced" where
  "setTempState delay now update s =
     (let v = update (tempState s)
      in if v = tempState s then s
         else s\<lparr>tempState := v, handler := Some (now + delay)\<rparr>)"

text \<open>
  A run of the hook over raw decisions \<open>(t, v)\<close>, the value \<open>v\<close> arriving at time
  \<open>t\<close>: the timeout fires first if it is due, then the value is set.
\<close>

fun run :: "nat \<Rightarrow> (nat \<times> 'a) list \<Rightarrow> 'a debounced \<Rightarrow> 'a debounced" where
  "run delay [] s = s"
| "run delay ((t, v) # evs) s = run delay evs (setTempState delay t (\<lambda>_. v) (elapse t s))"

section \<open>The application (App)\<close>

text \<open>
  A gesture sample; its fields \<^verbatim>\<open>x\<close>, \<^verbatim>\<open>y\<close>, \<^verbatim>\<open>z\<close> and \<^verbatim>\<open>rotation\<close> carry the
  prefix \<open>sample_\<close> here.
\<close>

record HandGestureData =
  gesture :: Gesture
  sample_x :: real
  sample_y :: real
  sample_z :: real
  sample_rotation :: real

text \<open>
  The state of \<^verbatim>\<open>App\<close>. The variable \<^verbatim>\<open>mode\<close> of the source is \<open>appMode a\<close>, that is \<open>state (modeHook a)\<close>,
  and \<^verbatim>\<open>setMode\<close> is the hook's \<^verbatim>\<open>setTempState\<close>.
\<close>

record App =
  modeHook :: "AppMode debounced"
  handPos :: "real \<times> real \<times> real \<times> real"
  photos :: "string list"
  particles :: "ParticleData list"
  hoveredPhotoId :: "string option"

definition appMode :: "App \<Rightarrow> AppMode" where
  "appMode a = state (modeHook a)"

text \<open>A string is truthy when it is neither \<^verbatim>\<open>null\<close> nor empty.\<close>

definition truthy :: "string option \<Rightarrow> bool" where
  "truthy h = (case h of None \<Rightarrow> False | Some s \<Rightarrow> s \<noteq> [])"

definition mount :: "nat \<Rightarrow> random \<Rightarrow> App" where
  "mount now rnd =
     \<lparr> modeHook = useDebouncedState TREE 300 now,
       handPos = (0.5, 0.5, 0, 0),
       photos = [],
       particles = generateParticles [] rnd,
       hoveredPhotoId = None \<rparr>"

text \<open>The argument that \<^verbatim>\<open>handleGestureUpdate\<close> passes to \<^verbatim>\<open>setMode\<close>.\<close>

definition transition :: "string option \<Rightarrow> Gesture \<Rightarrow> AppMode \<Rightarrow> AppMode" where
  "transition hovered g =
     (case g of
        Closed_Fist \<Rightarrow>
          (\<lambda>currentMode. if currentMode \<noteq> ZOOM \<and> truthy hovered then ZOOM else TREE)
      | Open_Palm \<Rightarrow> (\<lambda>_. SCATTER)
      | Pinch \<Rightarrow> (\<lambda>_. ZOOM)
      | Pointing_Up \<Rightarrow> (\<lambda>_. TREE)
      | Unknown \<Rightarrow> (\<lambda>_. TREE))"

definition handleGestureUpdate :: "nat \<Rightarrow> HandGestureData \<Rightarrow> App \<Rightarrow> App" where
  "handleGestureUpdate now data a =
     a\<lparr> handPos := (sample_x data, sample_y data,
                    if sample_z data = 0 then 0 else sample_z data, sample_rotation data),
        modeHook := setTempState 300 now (transition (hoveredPhotoId a) (gesture data))
                      (modeHook a) \<rparr>"

text \<open>Time passing: the timeout of the mode hook fires if it is due.\<close>

definition tick :: "nat \<Rightarrow> App \<Rightarrow> App" where
  "tick now a = a\<lparr> modeHook := elapse now (modeHook a) \<rparr>"

text \<open>\<^verbatim>\<open>onHoverPhoto\<close> is \<^verbatim>\<open>setHoveredPhotoId\<close>: one frame of the focus selector.\<close>

definition focusFrame :: "vec3 \<Rightarrow> App \<Rightarrow> App" where
  "focusFrame cameraPosition a =
     (case FocusManager (particles a) (appMode a) cameraPosition of
        NoCall \<Rightarrow> a
      | onFocusChange h \<Rightarrow> a\<lparr> hoveredPhotoId := h \<rparr>)"

text \<open>
  An upload: the object URLs of the files are appended to \<open>photos\<close>, and the effect
  that depends on \<open>photos\<close> runs, with the draws \<open>rnd\<close> for its call of the generator.
\<close>

definition handlePhotoUpload :: "string list \<Rightarrow> random \<Rightarrow> App \<Rightarrow> App" where
  "handlePhotoUpload newPhotos rnd a =
     (let a1 = a\<lparr> photos := photos a @ newPhotos \<rparr>
      in if length (photos a1) > 0
         then a1\<lparr> particles := generateParticles (photos a1) rnd \<rparr>
         else a1)"

section \<open>Sample inputs\<close>

text \<open>A sequence of draws that is constantly \<open>0\<close>, and two particles.\<close>

definition zeroDraws :: random where
  "zeroDraws = (\<lambda>k. 0)"

definition samplePhoto :: ParticleData where
  "samplePhoto = \<lparr> pid = ''p-photo-0'', type = photo, treePos = (0, 0, 5), scatterPos = (2, 4, 6),
                    color = Some ''#FFD700'', textureUrl = Some ''blob:a'',
                    rotation = (0, 1, 0), scale = 0.8 \<rparr>"

definition sampleBall :: ParticleData where
  "sampleBall = \<lparr> pid = ''p-0'', type = sphere, treePos = (1, 0, 0), scatterPos = (2, 4, 6),
                   color = Some ''#FFD700'', textureUrl = None,
                   rotation = (0, 1, 0), scale = 0.5 \<rparr>"

text \<open>A second photo in the same direction from the origin as \<open>samplePhoto\<close>.\<close>

definition samplePhoto1 :: ParticleData where
  "samplePhoto1 = \<lparr> pid = ''p-photo-1'', type = photo, treePos = (0, 0, 8), scatterPos = (1, 0, 0),
                    color = Some ''#FFD700'', textureUrl = Some ''blob:b'',
                    rotation = (0, 1, 0), scale = 0.8 \<rparr>"

text \<open>An application state in tree mode with a ball and the two sample photos.\<close>

definition sampleScene :: App where
  "sampleScene = \<lparr> modeHook = \<lparr> state = TREE, tempState = TREE, handler = None \<rparr>,
                   handPos = (0.5, 0.5, 0, 0),
                   photos = [''blob:a'', ''blob:b''],
                   particles = [sampleBall, samplePhoto, samplePhoto1],
                   hoveredPhotoId = None \<rparr>"

text \<open>Two gesture samples with the hand at the centre.\<close>

definition sampleFist :: HandGestureData where
  "sampleFist = \<lparr> gesture = Closed_Fist, sample_x = 0.5, sample_y = 0.5, sample_z = 0,
                    sample_rotation = 0 \<rparr>"

definition samplePinch :: HandGestureData where
  "samplePinch = \<lparr> gesture = Pinch, sample_x = 0.5, sample_y = 0.5, sample_z = 0,
                    sample_rotation = 0 \<rparr>"

text \<open>
  The application after mounting, the upload of one photo, and a frame of the focus
  selector with the camera placed in the direction of that photo: the photo is the
  focus. Then the same after a pinch that has been committed: the mode is zoom.
\<close>

definition focusedApp :: App where
  "focusedApp =
     focusFrame (treePos (photoParticle [''blob:a''] 0 zeroDraws 0))
       (handlePhotoUpload [''blob:a''] zeroDraws (mount 0 zeroDraws))"

definition zoomedApp :: App where
  "zoomedApp = tick 400 (handleGestureUpdate 0 samplePinch focusedApp)"

text \<open>
  The groups of \<open>zoomedApp\<close>, freshly mounted, after one frame of a tenth of a second.
\<close>

definition sampleInstances :: "mounted list" where
  "sampleInstances =
     Visuals_frame ZOOM (Some ''p-photo-0'') 0 0.1 (0, 0, 10)
       (Visuals_render (particles zoomedApp) [])"

section \<open>Predicates used in the proofs\<close>

text \<open>The four types that the ornament loop assigns.\<close>

definition ornamentType :: "ParticleType \<Rightarrow> bool" where
  "ornamentType ty = (ty = sphere \<or> ty = cube \<or> ty = snowflake \<or> ty = bell)"

text \<open>
  Three invariants of the debounced state. \<open>settled\<close>: a pending timeout is due within
  the delay, and without one the committed value is the pending one. \<open>holding\<close>: the
  value \<open>v\<close> is pending and is committed at \<open>due\<close> at the latest. \<open>waiting\<close>: the
  committed value is \<open>c\<close> and the timeout is not due before \<open>due\<close>.
\<close>

definition settled :: "nat \<Rightarrow> nat \<Rightarrow> 'a debounced \<Rightarrow> bool" where
  "settled delay now s =
     (case handler s of None \<Rightarrow> state s = tempState s | Some d \<Rightarrow> d \<le> now + delay)"

definition holding :: "nat \<Rightarrow> 'a \<Rightarrow> 'a debounced \<Rightarrow> bool" where
  "holding due v s =
     (tempState s = v \<and> (case handler s of None \<Rightarrow> state s = v | Some d \<Rightarrow> d \<le> due))"

definition waiting :: "nat \<Rightarrow> 'a \<Rightarrow> 'a debounced \<Rightarrow> bool" where
  "waiting due c s = (state s = c \<and> (case handler s of None \<Rightarrow> False | Some d \<Rightarrow> due \<le> d))"

section \<open>The layout generator: shape of the result\<close>

lemma photoLoop_eq:
  "photoLoop urls rnd i k ps =
     (ps @ map (\<lambda>j. photoParticle urls j rnd (k + 3 * (j - i))) [i..<length urls],
      k + 3 * (length urls - i))"
proof (induction urls rnd i k ps rule: photoLoop.induct)
  case (1 urls rnd i k ps)
  show ?case
  proof (cases "i < length urls")
    case True
    have m: "map (\<lambda>j. photoParticle urls j rnd (k + 3 + 3 * (j - (i + 1)))) [i + 1..<length urls]
           = map (\<lambda>j. photoParticle urls j rnd (k + 3 * (j - i))) [i + 1..<length urls]"
    proof (rule map_cong)
      fix j assume "j \<in> set [i + 1..<length urls]"
      then have "k + 3 + 3 * (j - (i + 1)) = k + 3 * (j - i)" by auto
      then show "photoParticle urls j rnd (k + 3 + 3 * (j - (i + 1))) =
                 photoParticle urls j rnd (k + 3 * (j - i))" by (rule arg_cong)
    qed simp
    have kk: "k + 3 + 3 * (length urls - (i + 1)) = k + 3 * (length urls - i)"
      using True by simp
    have up: "[i..<length urls] = i # [i + 1..<length urls]"
      using True by (simp add: upt_conv_Cons)
    have "photoLoop urls rnd i k ps =
            photoLoop urls rnd (i + 1) (k + 3) (ps @ [photoParticle urls i rnd k])"
      using True by (subst photoLoop.simps) simp
    also have "\<dots> = ((ps @ [photoParticle urls i rnd k]) @
                 map (\<lambda>j. photoParticle urls j rnd (k + 3 + 3 * (j - (i + 1)))) [i + 1..<length urls],
               k + 3 + 3 * (length urls - (i + 1)))"
      using "1.IH" [OF True] .
    also have "\<dots> = (ps @ map (\<lambda>j. photoParticle urls j rnd (k + 3 * (j - i))) [i..<length urls],
               k + 3 * (length urls - i))"
      unfolding m kk up by simp
    finally show ?thesis .
  next
    case False
    then show ?thesis by (subst photoLoop.simps) simp
  qed
qed

lemma ornamentParticle_type:
  "ornamentType (type (fst (ornamentParticle i rnd k)))"
  by (simp add: ornamentParticle_def ornamentType_def Let_def)

lemma ornamentLoop_shape:
  "\<exists>orn. fst (ornamentLoop rnd i k ps) = ps @ orn \<and> length orn = COUNT - i
          \<and> list_all (\<lambda>q. ornamentType (type q)) orn"
proof (induction rnd i k ps rule: ornamentLoop.induct)
  case (1 rnd i k ps)
  show ?case
  proof (cases "i < COUNT")
    case True
    obtain p k' where pk: "ornamentParticle i rnd k = (p, k')"
      by (cases "ornamentParticle i rnd k")
    have ty: "ornamentType (type p)"
      using ornamentParticle_type [of i rnd k] pk by simp
    from "1.IH" [OF True pk [symmetric]]
    obtain orn where orn: "fst (ornamentLoop rnd (i + 1) k' (ps @ [p])) = (ps @ [p]) @ orn"
      "length orn = COUNT - (i + 1)" "list_all (\<lambda>q. ornamentType (type q)) orn"
      by blast
    have "ornamentLoop rnd i k ps = ornamentLoop rnd (i + 1) k' (ps @ [p])"
      using True pk by (subst ornamentLoop.simps) simp
    then have "fst (ornamentLoop rnd i k ps) = ps @ (p # orn)"
      using orn(1) by simp
    moreover have "length (p # orn) = COUNT - i"
      using orn(2) True by simp
    moreover have "list_all (\<lambda>q. ornamentType (type q)) (p # orn)"
      using orn(3) ty by simp
    ultimately show ?thesis by blast
  next
    case False
    then show ?thesis by (subst ornamentLoop.simps) simp
  qed
qed

lemma generateParticles_shape:
  "\<exists>orn. generateParticles urls rnd =
           map (\<lambda>j. photoParticle urls j rnd (3 * j)) [0..<length urls] @ orn @ [topStar]
         \<and> length orn = COUNT \<and> list_all (\<lambda>q. ornamentType (type q)) orn"
proof -
  define P where "P = (if length urls > 0 then photoLoop urls rnd 0 0 [] else ([], 0))"
  have P: "fst P = map (\<lambda>j. photoParticle urls j rnd (3 * j)) [0..<length urls]"
    by (simp add: P_def photoLoop_eq)
  obtain orn where orn: "fst (ornamentLoop rnd 0 (snd P) (fst P)) = fst P @ orn"
    "length orn = COUNT - 0" "list_all (\<lambda>q. ornamentType (type q)) orn"
    using ornamentLoop_shape [of rnd 0 "snd P" "fst P"] by blast
  have "generateParticles urls rnd = fst (ornamentLoop rnd 0 (snd P) (fst P)) @ [topStar]"
    unfolding generateParticles_def P_def [symmetric]
    by (simp add: Let_def split: prod.splits)
  then show ?thesis using orn P by auto
qed

lemma photoParticle_type: "type (photoParticle urls j rnd k) = photo"
  by (simp add: photoParticle_def Let_def)

lemma topStar_type: "type topStar = star"
  by (simp add: topStar_def)

lemma filter_none: "list_all (\<lambda>q. \<not> P q) xs \<Longrightarrow> filter P xs = []"
  by (induction xs) auto

text \<open>
  Claim C5. For every photo list, the generated layout has exactly \<open>COUNT\<close> (the fixed
  number of ornaments, 1200) plus the number of photos plus one particles, and exactly
  one of them has the type \<open>star\<close> of the topper.
\<close>

theorem generateParticles_count:
  "length (generateParticles urls rnd) = COUNT + length urls + 1
   \<and> length (filter (\<lambda>p. type p = star) (generateParticles urls rnd)) = 1"
proof -
  obtain orn where g: "generateParticles urls rnd =
           map (\<lambda>j. photoParticle urls j rnd (3 * j)) [0..<length urls] @ orn @ [topStar]"
    and len: "length orn = COUNT" and ty: "list_all (\<lambda>q. ornamentType (type q)) orn"
    using generateParticles_shape by blast
  have "list_all (\<lambda>q. \<not> type q = star) orn"
    using ty by (auto simp: list_all_iff ornamentType_def)
  then have o: "filter (\<lambda>p. type p = star) orn = []"
    by (rule filter_none)
  have p: "filter (\<lambda>p. type p = star)
             (map (\<lambda>j. photoParticle urls j rnd (3 * j)) [0..<length urls]) = []"
    by (simp add: filter_map o_def photoParticle_type)
  show ?thesis
    by (simp add: g len o p topStar_type)
qed

text \<open>
  Claim C10. For every photo list, no particle of the generated layout has the type
  \<open>diamond\<close>: every type is one of photo, sphere, cube, snowflake, bell and star. The
  particles of the layout that receive the constant spin of the pose blender (given to
  the types diamond and star) are therefore the topper alone.
\<close>

theorem generateParticles_no_diamond:
  "filter (\<lambda>p. type p = diamond) (generateParticles urls rnd) = []
   \<and> list_all (\<lambda>p. type p = photo \<or> type p = sphere \<or> type p = cube \<or> type p = snowflake
                   \<or> type p = bell \<or> type p = star) (generateParticles urls rnd)
   \<and> filter spins (generateParticles urls rnd) = [topStar]"
proof -
  obtain orn where g: "generateParticles urls rnd =
           map (\<lambda>j. photoParticle urls j rnd (3 * j)) [0..<length urls] @ orn @ [topStar]"
    and ty: "list_all (\<lambda>q. ornamentType (type q)) orn"
    using generateParticles_shape by blast
  have o1: "filter (\<lambda>p. type p = diamond) orn = []"
    by (rule filter_none) (use ty in \<open>auto simp: list_all_iff ornamentType_def\<close>)
  have o2: "filter spins orn = []"
    by (rule filter_none) (use ty in \<open>auto simp: list_all_iff ornamentType_def spins_def\<close>)
  have o3: "list_all (\<lambda>p. type p = photo \<or> type p = sphere \<or> type p = cube \<or> type p = snowflake
                   \<or> type p = bell \<or> type p = star) orn"
    using ty by (auto simp: list_all_iff ornamentType_def)
  have p3: "list_all (\<lambda>p. type p = photo \<or> type p = sphere \<or> type p = cube
                   \<or> type p = snowflake \<or> type p = bell \<or> type p = star)
              (map (\<lambda>j. photoParticle urls j rnd (3 * j)) [0..<length urls])"
    by (simp add: list_all_iff photoParticle_type)
  show ?thesis
    by (simp add: g o1 o2 o3 p3 filter_map o_def photoParticle_type topStar_type spins_def)
qed

lemma generateParticles_nth_photo:
  assumes "i < length urls"
  shows "generateParticles urls rnd ! i = photoParticle urls i rnd (3 * i)"
proof -
  obtain orn where g: "generateParticles urls rnd =
           map (\<lambda>j. photoParticle urls j rnd (3 * j)) [0..<length urls] @ orn @ [topStar]"
    using generateParticles_shape by blast
  show ?thesis using assms by (simp add: g nth_append)
qed

text \<open>
  Claim C6 as stated fails: the first photo of a list of one has the helix parameter
  \<open>t = 0.05\<close>, but it rests at the height \<open>- 8.64\<close>, which is 14% of the total
  height above the foot of the tree at \<open>- HEIGHT / 2\<close>, not 5% (that would be the
  height \<open>- 10.8\<close>).
\<close>

theorem photo_height_compressed:
  "fst (snd (treePos (generateParticles [''blob:a''] zeroDraws ! 0))) = - 8.64
   \<and> (fst (snd (treePos (generateParticles [''blob:a''] zeroDraws ! 0))) + HEIGHT / 2) / HEIGHT
       = 0.14
   \<and> (fst (snd (treePos (generateParticles [''blob:a''] zeroDraws ! 0))) + HEIGHT / 2) / HEIGHT
       \<noteq> 0.05 + 0.8 * (real (0::nat) / real (length [''blob:a'']))
   \<and> 0.05 * HEIGHT - HEIGHT / 2 = - 10.8"
proof -
  have "generateParticles [''blob:a''] zeroDraws ! 0 = photoParticle [''blob:a''] 0 zeroDraws (3 * 0)"
    by (rule generateParticles_nth_photo) simp
  then have "fst (snd (treePos (generateParticles [''blob:a''] zeroDraws ! 0))) = - 8.64"
    by (simp add: photoParticle_def photoT_def HEIGHT_def Let_def)
  then show ?thesis by (simp add: HEIGHT_def)
qed

text \<open>
  Claim C6, amended. For a photo list of length \<open>n > 0\<close> and an index \<open>i < n\<close>, the
  \<open>i\<close>-th particle of the layout is the \<open>i\<close>-th photo, and its tree rest pose follows
  the helix with the parameter \<open>t = 0.05 + 0.8 (i / n)\<close>, which runs from 0.05 up to
  (not including) 0.85. The height is \<open>(t HEIGHT - HEIGHT / 2) 0.8\<close>, the band of
  \<open>t\<close> compressed to 80% about mid-height: as a fraction of the total height it is
  \<open>0.1 + 0.8 t\<close>, from 14% up to (not including) 78%, and the heights of consecutive
  photos are \<open>0.64 HEIGHT / n\<close> apart. The helix angle is \<open>\<theta> = t 2 \<pi> 8\<close>; the radius
  is \<open>r\<close>, the power \<open>0.8\<close> of \<open>1 - t\<close> times \<open>RADIUS_BASE\<close> plus \<open>3\<close>, which is
  the distance from the axis of the particle at \<open>(r cos \<theta>, height, r sin \<theta>)\<close>; and
  the rest rotation about the vertical axis is \<open>- \<theta> + \<pi> / 2\<close>, which turns the
  forward normal of the photo into \<open>(cos \<theta>, 0, sin \<theta>)\<close>, the direction straight out
  from the trunk axis.
\<close>

theorem photo_helix:
  assumes "i < length urls"
  shows "let p = generateParticles urls rnd ! i;
             t = 0.05 + 0.8 * (real i / real (length urls));
             theta = t * pi * 2 * 8;
             r = (1 - t) powr 0.8 * RADIUS_BASE + 3;
             h = (fst (snd (treePos p)) + HEIGHT / 2) / HEIGHT
         in type p = photo \<and> textureUrl p = Some (urls ! i)
          \<and> 0.05 \<le> t \<and> t < 0.85
          \<and> treePos p = (cos theta * r, ((t * HEIGHT) - HEIGHT / 2) * 0.8, sin theta * r)
          \<and> h = 0.1 + 0.8 * t \<and> 0.14 \<le> h \<and> h < 0.78
          \<and> (Suc i < length urls \<longrightarrow>
                fst (snd (treePos (generateParticles urls rnd ! Suc i))) - fst (snd (treePos p))
                  = 0.64 * HEIGHT / real (length urls))
          \<and> rotation p = (0, - theta + pi / 2, 0)
          \<and> 0 < r \<and> sqrt ((cos theta * r)\<^sup>2 + (sin theta * r)\<^sup>2) = r
          \<and> rotateY (- theta + pi / 2) (0, 0, 1) = (cos theta, 0, sin theta)"
proof -
  define t where "t = 0.05 + 0.8 * (real i / real (length urls))"
  define theta where "theta = t * pi * 2 * 8"
  define r where "r = (1 - t) powr 0.8 * RADIUS_BASE + 3"
  let ?p = "generateParticles urls rnd ! i"
  define h where "h = (fst (snd (treePos ?p)) + HEIGHT / 2) / HEIGHT"
  have n: "0 < real (length urls)" using assms by auto
  have q: "0 \<le> real i / real (length urls)" "real i / real (length urls) < 1"
    using assms n by (simp_all add: divide_less_eq)
  have t1: "0.05 \<le> t" using q(1) by (simp add: t_def)
  have t2: "t < 0.85" using q(2) by (simp add: t_def)
  have r: "0 < r"
  proof -
    have "0 \<le> (1 - t) powr 0.8 * RADIUS_BASE" by (simp add: RADIUS_BASE_def)
    then show ?thesis by (simp add: r_def)
  qed
  have s: "sin (pi / 2 - theta) = cos theta"
    using cos_sin_eq [of theta] by simp
  have c: "cos (pi / 2 - theta) = sin theta"
    using sin_cos_eq [of theta] by simp
  have pt: "photoT (length urls) i = t"
    by (simp add: photoT_def t_def Let_def)
  have pth: "photoTheta (length urls) i = theta"
    by (simp add: photoTheta_def theta_def pt Let_def)
  have pr: "photoR (length urls) i = r"
    by (simp add: photoR_def r_def pt Let_def)
  have p: "?p = photoParticle urls i rnd (3 * i)"
    using assms by (rule generateParticles_nth_photo)
  have 1: "type ?p = photo" by (simp add: p photoParticle_def Let_def)
  have 2: "textureUrl ?p = Some (urls ! i)" by (simp add: p photoParticle_def Let_def)
  have 3: "treePos ?p = (cos theta * r, ((t * HEIGHT) - HEIGHT / 2) * 0.8, sin theta * r)"
    by (simp add: p photoParticle_def Let_def pt pth pr)
  have 4: "rotation ?p = (0, - theta + pi / 2, 0)"
    by (simp add: p photoParticle_def Let_def pth)
  have 5: "rotateY (- theta + pi / 2) (0, 0, 1) = (cos theta, 0, sin theta)"
    by (simp add: rotateY_def s c)
  have "(cos theta * r)\<^sup>2 + (sin theta * r)\<^sup>2 = ((cos theta)\<^sup>2 + (sin theta)\<^sup>2) * r\<^sup>2"
    by (simp only: power_mult_distrib distrib_right)
  also have "\<dots> = r\<^sup>2"
    by (simp only: sin_cos_squared_add2 mult_1)
  finally have "(cos theta * r)\<^sup>2 + (sin theta * r)\<^sup>2 = r\<^sup>2" .
  then have 6: "sqrt ((cos theta * r)\<^sup>2 + (sin theta * r)\<^sup>2) = r"
    using r by simp
  have y: "fst (snd (treePos ?p)) = ((t * HEIGHT) - HEIGHT / 2) * 0.8"
    by (simp add: 3)
  have h1: "h = 0.1 + 0.8 * t"
    by (simp add: h_def y HEIGHT_def field_simps)
  have h2: "0.14 \<le> h" "h < 0.78"
    using t1 t2 by (simp_all add: h1)
  have 7: "Suc i < length urls \<longrightarrow>
                fst (snd (treePos (generateParticles urls rnd ! Suc i))) - fst (snd (treePos ?p))
                  = 0.64 * HEIGHT / real (length urls)"
  proof
    assume a: "Suc i < length urls"
    have "generateParticles urls rnd ! Suc i = photoParticle urls (Suc i) rnd (3 * Suc i)"
      using a by (rule generateParticles_nth_photo)
    then have "fst (snd (treePos (generateParticles urls rnd ! Suc i)))
        = ((photoT (length urls) (Suc i) * HEIGHT) - HEIGHT / 2) * 0.8"
      by (simp add: photoParticle_def Let_def)
    moreover have "photoT (length urls) (Suc i) = t + 0.8 / real (length urls)"
      using n by (simp add: photoT_def t_def Let_def field_simps)
    ultimately show "fst (snd (treePos (generateParticles urls rnd ! Suc i)))
          - fst (snd (treePos ?p)) = 0.64 * HEIGHT / real (length urls)"
      using n by (simp add: y HEIGHT_def field_simps)
  qed
  show ?thesis
    unfolding Let_def t_def [symmetric] theta_def [symmetric] r_def [symmetric] h_def [symmetric]
    using 1 2 3 4 5 6 7 t1 t2 r h1 h2 by simp
qed

theorem photo_helix_witness:
  "(0::nat) < length [''blob:a'', ''blob:b'']
   \<and> (let p = generateParticles [''blob:a'', ''blob:b''] zeroDraws ! 0;
             t = 0.05 + 0.8 * (real (0::nat) / real (length [''blob:a'', ''blob:b'']));
             theta = t * pi * 2 * 8;
             r = (1 - t) powr 0.8 * RADIUS_BASE + 3;
             h = (fst (snd (treePos p)) + HEIGHT / 2) / HEIGHT
         in type p = photo \<and> textureUrl p = Some ([''blob:a'', ''blob:b''] ! 0)
          \<and> 0.05 \<le> t \<and> t < 0.85
          \<and> treePos p = (cos theta * r, ((t * HEIGHT) - HEIGHT / 2) * 0.8, sin theta * r)
          \<and> h = 0.1 + 0.8 * t \<and> 0.14 \<le> h \<and> h < 0.78
          \<and> (Suc 0 < length [''blob:a'', ''blob:b''] \<longrightarrow>
                fst (snd (treePos (generateParticles [''blob:a'', ''blob:b''] zeroDraws ! Suc 0)))
                  - fst (snd (treePos p))
                  = 0.64 * HEIGHT / real (length [''blob:a'', ''blob:b'']))
          \<and> rotation p = (0, - theta + pi / 2, 0)
          \<and> 0 < r \<and> sqrt ((cos theta * r)\<^sup>2 + (sin theta * r)\<^sup>2) = r
          \<and> rotateY (- theta + pi / 2) (0, 0, 1) = (cos theta, 0, sin theta))
   \<and> Suc 0 < length [''blob:a'', ''blob:b'']
   \<and> fst (snd (treePos (generateParticles [''blob:a'', ''blob:b''] zeroDraws ! Suc 0)))
        - fst (snd (treePos (generateParticles [''blob:a'', ''blob:b''] zeroDraws ! 0))) = 7.68"
proof -
  have h: "(0::nat) < length [''blob:a'', ''blob:b'']" by simp
  have k: "Suc 0 < length [''blob:a'', ''blob:b'']" by simp
  note w = photo_helix [OF h, of zeroDraws]
  have "fst (snd (treePos (generateParticles [''blob:a'', ''blob:b''] zeroDraws ! Suc 0)))
        - fst (snd (treePos (generateParticles [''blob:a'', ''blob:b''] zeroDraws ! 0)))
        = 0.64 * HEIGHT / real (length [''blob:a'', ''blob:b''])"
    using w k unfolding Let_def by blast
  then have "fst (snd (treePos (generateParticles [''blob:a'', ''blob:b''] zeroDraws ! Suc 0)))
        - fst (snd (treePos (generateParticles [''blob:a'', ''blob:b''] zeroDraws ! 0))) = 7.68"
    by (simp add: HEIGHT_def)
  with h k w show ?thesis by (intro conjI)
qed

section \<open>The focus selector\<close>

lemma restPos_eq: "restPos mo p = (if mo = TREE then treePos p else scatterPos p)"
  by (cases "treePos p"; cases "scatterPos p") (simp add: restPos_def)

lemma focusScan_Some:
  "focusScan c mo ps (b, Some m) = (b', m') \<Longrightarrow>
     ((\<forall>p \<in> set ps. dot c (vnormalize (restPos mo p)) \<le> m) \<and> b' = b \<and> m' = Some m)
   \<or> (\<exists>xs q ys. ps = xs @ q # ys
         \<and> (\<forall>p \<in> set xs. dot c (vnormalize (restPos mo p)) < dot c (vnormalize (restPos mo q)))
         \<and> (\<forall>p \<in> set ys. dot c (vnormalize (restPos mo p)) \<le> dot c (vnormalize (restPos mo q)))
         \<and> m < dot c (vnormalize (restPos mo q))
         \<and> b' = Some (pid q) \<and> m' = Some (dot c (vnormalize (restPos mo q))))"
proof (induction ps arbitrary: b m)
  case Nil
  then show ?case by simp
next
  case (Cons p ps)
  let ?sc = "\<lambda>p. dot c (vnormalize (restPos mo p))"
  show ?case
  proof (cases "?sc p > m")
    case True
    then have "focusScan c mo ps (Some (pid p), Some (?sc p)) = (b', m')"
      using Cons.prems by (simp add: exceeds_def Let_def)
    from Cons.IH [OF this] show ?thesis
    proof
      assume a: "(\<forall>x \<in> set ps. ?sc x \<le> ?sc p) \<and> b' = Some (pid p) \<and> m' = Some (?sc p)"
      have "p # ps = [] @ p # ps \<and> (\<forall>x \<in> set []. ?sc x < ?sc p)
          \<and> (\<forall>x \<in> set ps. ?sc x \<le> ?sc p) \<and> m < ?sc p
          \<and> b' = Some (pid p) \<and> m' = Some (?sc p)"
        using a True by simp
      then show ?thesis by (intro disjI2 exI)
    next
      assume "\<exists>xs q ys. ps = xs @ q # ys \<and> (\<forall>x \<in> set xs. ?sc x < ?sc q)
          \<and> (\<forall>x \<in> set ys. ?sc x \<le> ?sc q) \<and> ?sc p < ?sc q
          \<and> b' = Some (pid q) \<and> m' = Some (?sc q)"
      then obtain xs q ys where h: "ps = xs @ q # ys" "\<forall>x \<in> set xs. ?sc x < ?sc q"
          "\<forall>x \<in> set ys. ?sc x \<le> ?sc q" "?sc p < ?sc q" "b' = Some (pid q)" "m' = Some (?sc q)"
        by (elim exE conjE)
      have "p # ps = (p # xs) @ q # ys \<and> (\<forall>x \<in> set (p # xs). ?sc x < ?sc q)
          \<and> (\<forall>x \<in> set ys. ?sc x \<le> ?sc q) \<and> m < ?sc q
          \<and> b' = Some (pid q) \<and> m' = Some (?sc q)"
        using h True by simp
      then show ?thesis by (intro disjI2 exI)
    qed
  next
    case False
    then have "focusScan c mo ps (b, Some m) = (b', m')"
      using Cons.prems by (simp add: exceeds_def Let_def)
    from Cons.IH [OF this] show ?thesis
    proof
      assume "(\<forall>x \<in> set ps. ?sc x \<le> m) \<and> b' = b \<and> m' = Some m"
      with False show ?thesis by simp
    next
      assume "\<exists>xs q ys. ps = xs @ q # ys \<and> (\<forall>x \<in> set xs. ?sc x < ?sc q)
          \<and> (\<forall>x \<in> set ys. ?sc x \<le> ?sc q) \<and> m < ?sc q
          \<and> b' = Some (pid q) \<and> m' = Some (?sc q)"
      then obtain xs q ys where h: "ps = xs @ q # ys" "\<forall>x \<in> set xs. ?sc x < ?sc q"
          "\<forall>x \<in> set ys. ?sc x \<le> ?sc q" "m < ?sc q" "b' = Some (pid q)" "m' = Some (?sc q)"
        by (elim exE conjE)
      have "p # ps = (p # xs) @ q # ys \<and> (\<forall>x \<in> set (p # xs). ?sc x < ?sc q)
          \<and> (\<forall>x \<in> set ys. ?sc x \<le> ?sc q) \<and> m < ?sc q
          \<and> b' = Some (pid q) \<and> m' = Some (?sc q)"
        using h False by simp
      then show ?thesis by (intro disjI2 exI)
    qed
  qed
qed

lemma focusScan_first_max:
  assumes "ps \<noteq> []"
  shows "\<exists>xs q ys. ps = xs @ q # ys
         \<and> (\<forall>p \<in> set xs. dot c (vnormalize (restPos mo p)) < dot c (vnormalize (restPos mo q)))
         \<and> (\<forall>p \<in> set ys. dot c (vnormalize (restPos mo p)) \<le> dot c (vnormalize (restPos mo q)))
         \<and> focusScan c mo ps (None, None) = (Some (pid q), Some (dot c (vnormalize (restPos mo q))))"
proof -
  let ?sc = "\<lambda>p. dot c (vnormalize (restPos mo p))"
  obtain p ps' where ps: "ps = p # ps'" using assms by (cases ps) auto
  obtain b' m' where r: "focusScan c mo ps' (Some (pid p), Some (?sc p)) = (b', m')"
    by (cases "focusScan c mo ps' (Some (pid p), Some (?sc p))")
  have f: "focusScan c mo ps (None, None) = (b', m')"
    using r by (simp add: ps exceeds_def Let_def)
  from focusScan_Some [OF r] show ?thesis
  proof
    assume a: "(\<forall>x \<in> set ps'. ?sc x \<le> ?sc p) \<and> b' = Some (pid p) \<and> m' = Some (?sc p)"
    have "ps = [] @ p # ps' \<and> (\<forall>x \<in> set []. ?sc x < ?sc p)
        \<and> (\<forall>x \<in> set ps'. ?sc x \<le> ?sc p)
        \<and> focusScan c mo ps (None, None) = (Some (pid p), Some (?sc p))"
      using a f ps by simp
    then show ?thesis by (intro exI)
  next
    assume "\<exists>xs q ys. ps' = xs @ q # ys \<and> (\<forall>x \<in> set xs. ?sc x < ?sc q)
          \<and> (\<forall>x \<in> set ys. ?sc x \<le> ?sc q) \<and> ?sc p < ?sc q
          \<and> b' = Some (pid q) \<and> m' = Some (?sc q)"
    then obtain xs q ys where h: "ps' = xs @ q # ys" "\<forall>x \<in> set xs. ?sc x < ?sc q"
        "\<forall>x \<in> set ys. ?sc x \<le> ?sc q" "?sc p < ?sc q" "b' = Some (pid q)" "m' = Some (?sc q)"
      by (elim exE conjE)
    have "ps = (p # xs) @ q # ys \<and> (\<forall>x \<in> set (p # xs). ?sc x < ?sc q)
        \<and> (\<forall>x \<in> set ys. ?sc x \<le> ?sc q)
        \<and> focusScan c mo ps (None, None) = (Some (pid q), Some (?sc q))"
      using h f ps by simp
    then show ?thesis by (intro exI)
  qed
qed

lemma FocusManager_zoom: "FocusManager ps ZOOM cam = NoCall"
  by (simp add: FocusManager_def)

lemma FocusManager_no_photo:
  "filter (\<lambda>p. type p = photo) ps = [] \<Longrightarrow> FocusManager ps mo cam = NoCall"
  by (simp add: FocusManager_def)

lemma FocusManager_candidate:
  assumes "mo \<noteq> ZOOM" "filter (\<lambda>p. type p = photo) ps \<noteq> []"
  shows "\<exists>xs q ys. filter (\<lambda>p. type p = photo) ps = xs @ q # ys
     \<and> (\<forall>p \<in> set xs. dot (vnormalize cam) (vnormalize (restPos mo p))
                        < dot (vnormalize cam) (vnormalize (restPos mo q)))
     \<and> (\<forall>p \<in> set ys. dot (vnormalize cam) (vnormalize (restPos mo p))
                        \<le> dot (vnormalize cam) (vnormalize (restPos mo q)))
     \<and> FocusManager ps mo cam =
         onFocusChange (if dot (vnormalize cam) (vnormalize (restPos mo q)) > 0.65
                        then Some (pid q) else None)"
proof -
  from focusScan_first_max [OF assms(2), of "vnormalize cam" mo]
  obtain xs q ys where h: "filter (\<lambda>p. type p = photo) ps = xs @ q # ys"
     "\<forall>p \<in> set xs. dot (vnormalize cam) (vnormalize (restPos mo p))
                        < dot (vnormalize cam) (vnormalize (restPos mo q))"
     "\<forall>p \<in> set ys. dot (vnormalize cam) (vnormalize (restPos mo p))
                        \<le> dot (vnormalize cam) (vnormalize (restPos mo q))"
     "focusScan (vnormalize cam) mo (filter (\<lambda>p. type p = photo) ps) (None, None)
        = (Some (pid q), Some (dot (vnormalize cam) (vnormalize (restPos mo q))))"
    by blast
  have "FocusManager ps mo cam =
         onFocusChange (if dot (vnormalize cam) (vnormalize (restPos mo q)) > 0.65
                        then Some (pid q) else None)"
    using assms h(4) by (simp add: FocusManager_def Let_def)
  with h(1,2,3) show ?thesis by (intro exI conjI)
qed

text \<open>
  Claim C3. On a frame in zoom mode, or with no photo particle, the selector does not
  call \<open>onFocusChange\<close> and the focus id stays as it is. On any other frame the photo
  particles split as \<open>xs @ q # ys\<close>, where the candidate \<open>q\<close> has a strictly greater
  dot product (of its normalised rest position for the mode, tree position in tree mode
  and scatter position otherwise, with the normalised camera position) than every
  particle before it, and one at least as great as every particle after it: \<open>q\<close> is
  the first particle that attains the maximum. The focus id becomes the id of \<open>q\<close>
  if that dot product exceeds \<open>0.65\<close>, and is cleared otherwise.
\<close>

theorem focus_selector:
  "(appMode a = ZOOM \<or> filter (\<lambda>p. type p = photo) (particles a) = []
      \<longrightarrow> FocusManager (particles a) (appMode a) cam = NoCall \<and> focusFrame cam a = a)
   \<and> (appMode a \<noteq> ZOOM \<and> filter (\<lambda>p. type p = photo) (particles a) \<noteq> []
      \<longrightarrow> (\<exists>xs q ys. filter (\<lambda>p. type p = photo) (particles a) = xs @ q # ys
            \<and> (\<forall>p \<in> set xs.
                  dot (vnormalize cam) (vnormalize (if appMode a = TREE then treePos p else scatterPos p))
                < dot (vnormalize cam) (vnormalize (if appMode a = TREE then treePos q else scatterPos q)))
            \<and> (\<forall>p \<in> set ys.
                  dot (vnormalize cam) (vnormalize (if appMode a = TREE then treePos p else scatterPos p))
                \<le> dot (vnormalize cam) (vnormalize (if appMode a = TREE then treePos q else scatterPos q)))
            \<and> focusFrame cam a =
                a\<lparr>hoveredPhotoId :=
                    if dot (vnormalize cam)
                         (vnormalize (if appMode a = TREE then treePos q else scatterPos q)) > 0.65
                    then Some (pid q) else None\<rparr>))"
proof (intro conjI impI)
  assume h: "appMode a = ZOOM \<or> filter (\<lambda>p. type p = photo) (particles a) = []"
  then show n: "FocusManager (particles a) (appMode a) cam = NoCall"
  proof
    assume "appMode a = ZOOM"
    then show ?thesis by (simp add: FocusManager_zoom)
  next
    assume "filter (\<lambda>p. type p = photo) (particles a) = []"
    then show ?thesis by (rule FocusManager_no_photo)
  qed
  show "focusFrame cam a = a"
    by (simp add: focusFrame_def n)
next
  assume "appMode a \<noteq> ZOOM \<and> filter (\<lambda>p. type p = photo) (particles a) \<noteq> []"
  then have 1: "appMode a \<noteq> ZOOM" and 2: "filter (\<lambda>p. type p = photo) (particles a) \<noteq> []"
    by simp_all
  from FocusManager_candidate [OF 1 2, of cam] obtain xs q ys where
    h: "filter (\<lambda>p. type p = photo) (particles a) = xs @ q # ys"
     "\<forall>p \<in> set xs. dot (vnormalize cam) (vnormalize (restPos (appMode a) p))
                        < dot (vnormalize cam) (vnormalize (restPos (appMode a) q))"
     "\<forall>p \<in> set ys. dot (vnormalize cam) (vnormalize (restPos (appMode a) p))
                        \<le> dot (vnormalize cam) (vnormalize (restPos (appMode a) q))"
     "FocusManager (particles a) (appMode a) cam =
         onFocusChange (if dot (vnormalize cam) (vnormalize (restPos (appMode a) q)) > 0.65
                        then Some (pid q) else None)"
    by blast
  have "focusFrame cam a = a\<lparr>hoveredPhotoId :=
                    if dot (vnormalize cam) (vnormalize (restPos (appMode a) q)) > 0.65
                    then Some (pid q) else None\<rparr>"
    by (simp add: focusFrame_def h(4))
  with h(1,2,3) show "\<exists>xs q ys. filter (\<lambda>p. type p = photo) (particles a) = xs @ q # ys
            \<and> (\<forall>p \<in> set xs.
                  dot (vnormalize cam) (vnormalize (if appMode a = TREE then treePos p else scatterPos p))
                < dot (vnormalize cam) (vnormalize (if appMode a = TREE then treePos q else scatterPos q)))
            \<and> (\<forall>p \<in> set ys.
                  dot (vnormalize cam) (vnormalize (if appMode a = TREE then treePos p else scatterPos p))
                \<le> dot (vnormalize cam) (vnormalize (if appMode a = TREE then treePos q else scatterPos q)))
            \<and> focusFrame cam a =
                a\<lparr>hoveredPhotoId :=
                    if dot (vnormalize cam)
                         (vnormalize (if appMode a = TREE then treePos q else scatterPos q)) > 0.65
                    then Some (pid q) else None\<rparr>"
    unfolding restPos_eq by (intro exI conjI)
qed

theorem focus_selector_witness:
  "hoveredPhotoId (focusFrame (0, 0, 10) sampleScene) = Some ''p-photo-0''
   \<and> focusFrame (0, 0, 10) (sampleScene\<lparr>particles := [sampleBall]\<rparr>) = sampleScene\<lparr>particles := [sampleBall]\<rparr>
   \<and> focusFrame (0, 0, 10) (sampleScene\<lparr>modeHook := \<lparr>state = ZOOM, tempState = ZOOM, handler = None\<rparr>\<rparr>)
       = sampleScene\<lparr>modeHook := \<lparr>state = ZOOM, tempState = ZOOM, handler = None\<rparr>\<rparr>"
proof -
  let ?cam = "(0, 0, 10) :: vec3"
  let ?score = "\<lambda>p. dot (vnormalize ?cam)
                   (vnormalize (if appMode sampleScene = TREE then treePos p else scatterPos p))"
  have m: "appMode sampleScene \<noteq> ZOOM" by (simp add: sampleScene_def appMode_def)
  have f: "filter (\<lambda>p. type p = photo) (particles sampleScene) = [samplePhoto, samplePhoto1]"
    by (simp add: sampleScene_def sampleBall_def samplePhoto_def samplePhoto1_def)
  have "appMode sampleScene \<noteq> ZOOM \<and> filter (\<lambda>p. type p = photo) (particles sampleScene) \<noteq> []"
    using m f by simp
  with focus_selector [of sampleScene ?cam]
  obtain xs q ys where h: "filter (\<lambda>p. type p = photo) (particles sampleScene) = xs @ q # ys"
    "\<forall>p \<in> set xs. ?score p < ?score q"
    "focusFrame ?cam sampleScene =
       sampleScene\<lparr>hoveredPhotoId := if ?score q > 0.65 then Some (pid q) else None\<rparr>"
    by blast
  have sc: "?score samplePhoto = 1"
    by (simp add: sampleScene_def appMode_def samplePhoto_def vnormalize_def vlength_def
          divideScalar_def multiplyScalar_def dot_def)
  have sc1: "?score samplePhoto1 = 1"
    by (simp add: sampleScene_def appMode_def samplePhoto1_def vnormalize_def vlength_def
          divideScalar_def multiplyScalar_def dot_def)
  have "(xs = [] \<and> q = samplePhoto) \<or> (xs = [samplePhoto] \<and> q = samplePhoto1)"
    using h(1) unfolding f by (auto simp: Cons_eq_append_conv)
  then have q: "q = samplePhoto"
  proof
    assume "xs = [] \<and> q = samplePhoto"
    then show ?thesis by simp
  next
    assume "xs = [samplePhoto] \<and> q = samplePhoto1"
    then have x: "samplePhoto \<in> set xs" and q1: "q = samplePhoto1" by simp_all
    from bspec [OF h(2) x] have "?score samplePhoto < ?score samplePhoto1"
      unfolding q1 .
    then show ?thesis unfolding sc sc1 by simp
  qed
  have "focusFrame ?cam sampleScene =
       sampleScene\<lparr>hoveredPhotoId := if ?score samplePhoto > 0.65 then Some (pid samplePhoto) else None\<rparr>"
    using h(3) unfolding q .
  then have "focusFrame ?cam sampleScene = sampleScene\<lparr>hoveredPhotoId := Some (pid samplePhoto)\<rparr>"
    unfolding sc by simp
  then have 1: "hoveredPhotoId (focusFrame ?cam sampleScene) = Some ''p-photo-0''"
    by (simp add: samplePhoto_def)
  have n: "appMode (sampleScene\<lparr>particles := [sampleBall]\<rparr>) = ZOOM
        \<or> filter (\<lambda>p. type p = photo) (particles (sampleScene\<lparr>particles := [sampleBall]\<rparr>)) = []"
    by (simp add: sampleBall_def)
  have 2: "focusFrame ?cam (sampleScene\<lparr>particles := [sampleBall]\<rparr>) = sampleScene\<lparr>particles := [sampleBall]\<rparr>"
    using focus_selector [of "sampleScene\<lparr>particles := [sampleBall]\<rparr>" ?cam] n by blast
  let ?z = "sampleScene\<lparr>modeHook := \<lparr>state = ZOOM, tempState = ZOOM, handler = None\<rparr>\<rparr>"
  have z: "appMode ?z = ZOOM \<or> filter (\<lambda>p. type p = photo) (particles ?z) = []"
    by (simp add: appMode_def)
  have 3: "focusFrame ?cam ?z = ?z"
    using focus_selector [of ?z ?cam] z by blast
  from 1 2 3 show ?thesis by simp
qed

section \<open>The pose blender in zoom mode\<close>

lemma lookAt_position [simp]: "o_position (Object3D_lookAt c target obj) = o_position obj"
  by (simp add: Object3D_lookAt_def Let_def)

lemma lookAt_scale [simp]: "o_scale (Object3D_lookAt c target obj) = o_scale obj"
  by (simp add: Object3D_lookAt_def Let_def)



section \<open>The camera rig\<close>

text \<open>
  Claim C7 as stated fails: at the extreme \<open>handX = 1\<close> of the horizontal signal the
  azimuth is \<open>0.625\<close> of a turn, not \<open>1.25\<close> turns, and at \<open>handX = 0\<close> it is
  \<open>- 0.625\<close> of a turn, not \<open>- 1.25\<close> turns.
\<close>

theorem azimuth_not_full_turns:
  "targetAzimuth 1 = 0.625 * turn \<and> targetAzimuth 1 \<noteq> 1.25 * turn
   \<and> targetAzimuth 0 = - 0.625 * turn \<and> targetAzimuth 0 \<noteq> - 1.25 * turn"
  by (simp add: targetAzimuth_def turn_def)

text \<open>
  Claim C7, amended. The azimuth is \<open>(handX - 0.5) 2.5 \<pi>\<close>: it is \<open>0\<close> at
  \<open>handX = 0.5\<close>, and for a horizontal signal in \<open>[0, 1]\<close> it ranges over
  \<open>\<plusminus> 1.25 \<pi>\<close>, that is \<open>\<plusminus> 0.625\<close> of a turn: a sweep of \<open>1.25\<close> turns in all.
\<close>

theorem azimuth_range:
  "targetAzimuth 0.5 = 0
   \<and> targetAzimuth 0 = - 1.25 * pi \<and> targetAzimuth 1 = 1.25 * pi
   \<and> targetAzimuth 1 - targetAzimuth 0 = 1.25 * turn
   \<and> (0 \<le> handX \<and> handX \<le> 1 \<longrightarrow>
        - 0.625 * turn \<le> targetAzimuth handX \<and> targetAzimuth handX \<le> 0.625 * turn)
   \<and> targetAzimuth handX = (handX - 0.5) * 1.25 * turn"
proof (intro conjI impI)
  assume h: "0 \<le> handX \<and> handX \<le> 1"
  have "targetAzimuth handX = pi * ((handX - 0.5) * 2.5)"
    by (simp add: targetAzimuth_def)
  moreover have "- 1.25 \<le> (handX - 0.5) * 2.5" "(handX - 0.5) * 2.5 \<le> 1.25" using h by simp_all
  ultimately have "pi * (- 1.25) \<le> targetAzimuth handX" "targetAzimuth handX \<le> pi * 1.25"
    using pi_gt_zero by (simp_all only: mult_le_cancel_left_pos)
  then show "- 0.625 * turn \<le> targetAzimuth handX" "targetAzimuth handX \<le> 0.625 * turn"
    by (simp_all add: turn_def)
qed (simp_all add: targetAzimuth_def turn_def)

theorem azimuth_range_witness:
  "(0::real) \<le> 0.25 \<and> (0.25::real) \<le> 1
   \<and> - 0.625 * turn \<le> targetAzimuth 0.25 \<and> targetAzimuth 0.25 \<le> 0.625 * turn
   \<and> targetAzimuth 0.25 = - 0.3125 * turn"
proof -
  have h: "(0::real) \<le> 0.25 \<and> (0.25::real) \<le> 1" by simp
  have "- 0.625 * turn \<le> targetAzimuth 0.25 \<and> targetAzimuth 0.25 \<le> 0.625 * turn"
    using azimuth_range [of "0.25"] h by blast
  moreover have "targetAzimuth 0.25 = (0.25 - 0.5) * 1.25 * turn"
    using azimuth_range [of "0.25"] by blast
  ultimately show ?thesis by simp
qed







lemma sq3: "sqrt 3 * sqrt 3 = (3::real)" by simp
lemma sq2: "sqrt 2 * sqrt 2 = (2::real)" by simp

lemma vnormalize_diag:
  assumes "0 < a"
  shows "vnormalize (a, a, a) = (1 / sqrt 3, 1 / sqrt 3, 1 / sqrt 3)"
proof -
  have "a * a + a * a + a * a = 3 * a\<^sup>2" by (simp add: power2_eq_square)
  then have l: "vlength (a, a, a) = sqrt 3 * a"
    using assms by (simp add: vlength_def real_sqrt_mult)
  have "a * (1 / (sqrt 3 * a)) = 1 / sqrt 3" using assms by simp
  then show ?thesis
    using assms by (simp add: vnormalize_def l divideScalar_def multiplyScalar_def)
qed

lemma vnormalize_right:
  "vnormalize (1 / sqrt 3, 0, - (1 / sqrt 3)) = (1 / sqrt 2, 0, - (1 / sqrt 2))"
proof -
  have "(1 / sqrt 3) * (1 / sqrt 3) + 0 * 0 + (- (1 / sqrt 3)) * (- (1 / sqrt 3)) = (2 / 3 :: real)"
    by (simp add: sq3)
  then have l: "vlength (1 / sqrt 3, 0, - (1 / sqrt 3)) = sqrt (2 / 3)"
    by (simp only: vlength_def prod.case)
  have l2: "sqrt (2 / 3) = sqrt 2 / sqrt 3" by (simp add: real_sqrt_divide)
  have "sqrt 2 / sqrt 3 \<noteq> 0" by simp
  moreover have "(1 / sqrt 3) * (1 / (sqrt 2 / sqrt 3)) = 1 / sqrt 2" by simp
  ultimately show ?thesis
    by (simp add: vnormalize_def l l2 divideScalar_def multiplyScalar_def)
qed

lemma lookAt_diag:
  assumes "0 < a"
  shows "Matrix4_lookAt (a, a, a) (0, 0, 0) DEFAULT_UP =
     ((1 / sqrt 2, 0, - (1 / sqrt 2)),
      (- (1 / sqrt 6), 2 / sqrt 6, - (1 / sqrt 6)),
      (1 / sqrt 3, 1 / sqrt 3, 1 / sqrt 3))"
proof -
  have s: "subVectors (a, a, a) (0, 0, 0) = (a, a, a)" by (simp add: subVectors_def)
  have n: "lengthSq (a, a, a) \<noteq> 0"
    using assms by (simp add: lengthSq_def add_nonneg_eq_0_iff)
  have x0: "crossVectors DEFAULT_UP (1 / sqrt 3, 1 / sqrt 3, 1 / sqrt 3)
              = (1 / sqrt 3, 0, - (1 / sqrt 3))"
    by (simp add: crossVectors_def DEFAULT_UP_def)
  have nx: "lengthSq (1 / sqrt 3, 0, - (1 / sqrt 3)) \<noteq> 0"
    by (simp add: lengthSq_def sq3)
  have s6: "sqrt 6 = sqrt 2 * sqrt 3"
    using real_sqrt_mult [of 2 3] by simp
  have y: "crossVectors (1 / sqrt 3, 1 / sqrt 3, 1 / sqrt 3) (1 / sqrt 2, 0, - (1 / sqrt 2))
             = (- (1 / sqrt 6), 2 / sqrt 6, - (1 / sqrt 6))"
    by (simp add: crossVectors_def s6)
  show ?thesis
    using n nx
    by (simp add: Matrix4_lookAt_def Let_def s vnormalize_diag [OF assms] x0 vnormalize_right y)
qed

lemma euler_diag:
  "Euler_setFromRotationMatrix
     ((1 / sqrt 2, 0, - (1 / sqrt 2)),
      (- (1 / sqrt 6), 2 / sqrt 6, - (1 / sqrt 6)),
      (1 / sqrt 3, 1 / sqrt 3, 1 / sqrt 3))
   = (atan2 (- (1 / sqrt 3)) (1 / sqrt 3), arcsin (1 / sqrt 3), pi / 6)"
proof -
  have s6: "sqrt 6 = sqrt 2 * sqrt 3"
    using real_sqrt_mult [of 2 3] by simp
  have "1 < sqrt 3" by simp
  then have b: "1 / sqrt 3 < 1" by simp
  have "(3 / 2 :: real) < sqrt 3"
    by (rule real_less_rsqrt) (simp add: power2_eq_square)
  then have "1 / sqrt 3 < 1 / (3 / 2 :: real)"
    by (simp add: field_simps)
  then have m: "\<bar>1 / sqrt 3\<bar> < (0.9999999 :: real)"
    by simp
  have lo: "(- 1 :: real) \<le> 1 / sqrt 3"
    by (rule order_trans [of _ 0]) simp_all
  have c: "clamp (1 / sqrt 3) (- 1) 1 = 1 / sqrt 3"
    using b lo unfolding clamp_def max_def min_def by (simp del: one_divide_eq_0_iff)
  have "(1 / sqrt 6) / (1 / sqrt 2) = 1 / sqrt 3" by (simp add: s6)
  then have "atan2 (1 / sqrt 6) (1 / sqrt 2) = arctan (1 / sqrt 3)"
    by (simp add: atan2_def)
  also have "\<dots> = pi / 6"
    by (rule arctan_unique) (simp_all add: tan_30)
  finally have z: "atan2 (1 / sqrt 6) (1 / sqrt 2) = pi / 6" .
  show ?thesis
    using m by (simp add: Euler_setFromRotationMatrix_def c z Let_def)
qed

text \<open>
  An example of the Euler angles after a frame: the camera moves to
  \<open>(0.95, 0.95, 0.95)\<close> and looks at the origin from there; its third Euler angle is
  then \<open>\<pi> / 6\<close>, not the \<open>0\<close> that the rig wrote before.
\<close>

lemma CameraRig_euler_z:
  "CameraRig 0.5 0.5 0 0 ZOOM \<lparr> o_position = (1, 1, 9 / 19), o_rotation = (0, 0, 0), o_scale = (1, 1, 1) \<rparr>
     = \<lparr> o_position = (0.95, 0.95, 0.95),
         o_rotation = (atan2 (- (1 / sqrt 3)) (1 / sqrt 3), arcsin (1 / sqrt 3), pi / 6),
         o_scale = (1, 1, 1) \<rparr>"
proof -
  have p: "vlerp (1, 1, 9 / 19) (0, 0, 10) (1 / 20) = (19 / 20, 19 / 20, 19 / 20)"
    by (simp add: vlerp_def)
  have l: "Matrix4_lookAt (19 / 20, 19 / 20, 19 / 20) (0, 0, 0) DEFAULT_UP =
     ((1 / sqrt 2, 0, - (1 / sqrt 2)),
      (- (1 / sqrt 6), 2 / sqrt 6, - (1 / sqrt 6)),
      (1 / sqrt 3, 1 / sqrt 3, 1 / sqrt 3))"
    by (rule lookAt_diag) simp
  show ?thesis
    by (simp add: CameraRig_def Object3D_lookAt_def Let_def p l euler_diag)
qed


section \<open>The debounced state\<close>

lemma settled_mount: "settled delay now (useDebouncedState v delay now)"
  by (simp add: settled_def useDebouncedState_def)

lemma settled_elapse: "settled delay now s \<Longrightarrow> now \<le> t \<Longrightarrow> settled delay t (elapse t s)"
  by (auto simp: settled_def elapse_def timeout_def split: option.splits)

lemma settled_set: "settled delay t s \<Longrightarrow> settled delay t (setTempState delay t f s)"
  by (auto simp: settled_def setTempState_def Let_def split: option.splits)

lemma tempState_elapse [simp]: "tempState (elapse t s) = tempState s"
  by (simp add: elapse_def timeout_def split: option.splits)

lemma state_set [simp]: "state (setTempState delay t f s) = state s"
  by (simp add: setTempState_def Let_def)

lemma tempState_set [simp]: "tempState (setTempState delay t f s) = f (tempState s)"
  by (simp add: setTempState_def Let_def)

lemma run_append: "run delay (xs @ ys) s = run delay ys (run delay xs s)"
  by (induction xs arbitrary: s) auto

lemma settled_run:
  "settled delay now s \<Longrightarrow> sorted (map fst (evs @ [(t, v)])) \<Longrightarrow> \<forall>e \<in> set evs. now \<le> fst e
     \<Longrightarrow> now \<le> t
     \<Longrightarrow> settled delay t (run delay (evs @ [(t, v)]) s) \<and> tempState (run delay (evs @ [(t, v)]) s) = v"
proof (induction evs arbitrary: s now)
  case Nil
  then show ?case by (simp add: settled_set settled_elapse)
next
  case (Cons e evs)
  obtain t' v' where e: "e = (t', v')" by (cases e)
  have s': "settled delay t' (setTempState delay t' (\<lambda>_. v') (elapse t' s))"
    using Cons.prems e by (simp add: settled_set settled_elapse)
  have srt: "sorted (map fst (evs @ [(t, v)]))" and le: "\<forall>x \<in> set evs. t' \<le> fst x" and "t' \<le> t"
    using Cons.prems(2) e by (auto simp: sorted_append)
  from Cons.IH [OF s' srt le \<open>t' \<le> t\<close>] show ?case
    by (simp add: e)
qed

lemma holding_elapse: "holding due v s \<Longrightarrow> holding due v (elapse t s)"
  by (auto simp: holding_def elapse_def timeout_def split: option.splits)

lemma holding_set: "holding due v s \<Longrightarrow> holding due v (setTempState delay t (\<lambda>_. v) s)"
  by (auto simp: holding_def setTempState_def Let_def split: option.splits)

lemma holding_run:
  "holding due v s \<Longrightarrow> \<forall>e \<in> set evs. snd e = v \<Longrightarrow> holding due v (run delay evs s)"
proof (induction evs arbitrary: s)
  case Nil
  then show ?case by simp
next
  case (Cons e evs)
  obtain t' v' where e: "e = (t', v')" by (cases e)
  with Cons.prems have "v' = v" by simp
  then have "holding due v (setTempState delay t' (\<lambda>_. v') (elapse t' s))"
    using Cons.prems(1) by (simp add: holding_set holding_elapse)
  then show ?case using Cons.IH Cons.prems(2) by (simp add: e)
qed

lemma holding_commit: "holding due v s \<Longrightarrow> due \<le> T \<Longrightarrow> state (elapse T s) = v"
  by (auto simp: holding_def elapse_def timeout_def split: option.splits)

lemma settled_holding: "settled delay t s \<Longrightarrow> tempState s = v \<Longrightarrow> holding (t + delay) v s"
  by (auto simp: settled_def holding_def split: option.splits)

lemma held_commits:
  assumes "sorted (map fst (pre @ [(t, v)]))" "\<forall>e \<in> set pre. t0 \<le> fst e" "t0 \<le> t"
    and "\<forall>e \<in> set post. snd e = v" and "t + delay \<le> T"
  shows "state (elapse T (run delay (pre @ (t, v) # post) (useDebouncedState init delay t0))) = v"
proof -
  let ?s0 = "useDebouncedState init delay t0"
  have "settled delay t (run delay (pre @ [(t, v)]) ?s0) \<and> tempState (run delay (pre @ [(t, v)]) ?s0) = v"
    using settled_run [OF settled_mount assms(1) assms(2) assms(3)] .
  then have "holding (t + delay) v (run delay (pre @ [(t, v)]) ?s0)"
    by (simp add: settled_holding)
  then have "holding (t + delay) v (run delay post (run delay (pre @ [(t, v)]) ?s0))"
    using assms(4) by (rule holding_run)
  then have "holding (t + delay) v (run delay (pre @ (t, v) # post) ?s0)"
    using run_append [of delay "pre @ [(t, v)]" post ?s0] by simp
  then show ?thesis using assms(5) by (rule holding_commit)
qed

lemma waiting_elapse: "waiting due c s \<Longrightarrow> t < due \<Longrightarrow> elapse t s = s"
  by (auto simp: waiting_def elapse_def split: option.splits)

lemma waiting_set: "waiting (t0 + delay) c s \<Longrightarrow> t0 \<le> t \<Longrightarrow> waiting (t0 + delay) c (setTempState delay t f s)"
  by (auto simp: waiting_def setTempState_def Let_def split: option.splits)

lemma waiting_run:
  "waiting (t0 + delay) c s \<Longrightarrow> \<forall>e \<in> set evs. t0 \<le> fst e \<and> fst e < t0 + delay
     \<Longrightarrow> waiting (t0 + delay) c (run delay evs s)"
proof (induction evs arbitrary: s)
  case Nil
  then show ?case by simp
next
  case (Cons e evs)
  obtain t' v' where e: "e = (t', v')" by (cases e)
  have t': "t0 \<le> t'" "t' < t0 + delay" using Cons.prems(2) e by auto
  have "elapse t' s = s" using Cons.prems(1) t'(2) by (rule waiting_elapse)
  then have "waiting (t0 + delay) c (setTempState delay t' (\<lambda>_. v') (elapse t' s))"
    using Cons.prems(1) t'(1) by (simp add: waiting_set)
  then show ?case using Cons.IH Cons.prems(2) by (simp add: e)
qed

lemma change_waits:
  "v \<noteq> tempState s \<Longrightarrow> waiting (t + delay) (state (elapse t s)) (setTempState delay t (\<lambda>_. v) (elapse t s))"
  by (simp add: waiting_def setTempState_def Let_def)

lemma no_commit_in_window:
  assumes "v \<noteq> tempState s" and "\<forall>e \<in> set evs. t \<le> fst e \<and> fst e < t + delay" and "T < t + delay"
  shows "state (elapse T (run delay ((t, v) # evs) s)) = state (elapse t s)"
proof -
  have w: "waiting (t + delay) (state (elapse t s)) (run delay ((t, v) # evs) s)"
    using waiting_run [OF change_waits [OF assms(1)] assms(2)] by simp
  then have "elapse T (run delay ((t, v) # evs) s) = run delay ((t, v) # evs) s"
    using assms(3) by (rule waiting_elapse)
  then show ?thesis using w by (simp add: waiting_def)
qed

lemma state_elapse_cases: "state (elapse t s) = state s \<or> state (elapse t s) = tempState s"
  by (simp add: elapse_def timeout_def split: option.splits)

lemma run_values:
  "state (run delay evs s) \<in> insert (state s) (insert (tempState s) (snd ` set evs))
   \<and> tempState (run delay evs s) \<in> insert (tempState s) (snd ` set evs)"
proof (induction evs arbitrary: s)
  case Nil
  then show ?case by simp
next
  case (Cons e evs)
  obtain t' v' where e: "e = (t', v')" by (cases e)
  let ?s1 = "setTempState delay t' (\<lambda>_. v') (elapse t' s)"
  have 1: "state ?s1 = state s \<or> state ?s1 = tempState s"
    using state_elapse_cases [of t' s] by simp
  have 2: "tempState ?s1 = v'" by simp
  from Cons.IH [of ?s1] 1 2 show ?case
    by (auto simp: e)
qed

lemma committed_values:
  "state (elapse T (run delay evs s)) \<in> insert (state s) (insert (tempState s) (snd ` set evs))"
proof -
  let ?r = "run delay evs s"
  have 1: "state ?r \<in> insert (state s) (insert (tempState s) (snd ` set evs))"
    and 2: "tempState ?r \<in> insert (tempState s) (snd ` set evs)"
    using run_values [of delay evs s] by blast+
  from state_elapse_cases [of T ?r] show ?thesis
  proof
    assume "state (elapse T ?r) = state ?r"
    with 1 show ?thesis by simp
  next
    assume "state (elapse T ?r) = tempState ?r"
    with 2 show ?thesis by auto
  qed
qed

lemma restart:
  "v \<noteq> tempState s \<Longrightarrow> setTempState delay t (\<lambda>_. v) s = s\<lparr>tempState := v, handler := Some (t + delay)\<rparr>"
  by (simp add: setTempState_def)

lemma aba:
  assumes "tempState s = A" "A \<noteq> B" "t1 \<le> t2" "t2 < t1 + delay"
  shows "run delay [(t1, B), (t2, A)] s = \<lparr>state = state (elapse t1 s), tempState = A, handler = Some (t2 + delay)\<rparr>"
proof -
  let ?s1 = "setTempState delay t1 (\<lambda>_. B) (elapse t1 s)"
  have s1: "?s1 = (elapse t1 s)\<lparr>tempState := B, handler := Some (t1 + delay)\<rparr>"
    using assms(1,2) by (simp add: setTempState_def)
  have "handler ?s1 = Some (t1 + delay)"
    by (simp add: s1)
  then have e: "elapse t2 ?s1 = ?s1"
    using assms(4) unfolding elapse_def by simp
  have "setTempState delay t2 (\<lambda>_. A) ?s1 = ?s1\<lparr>tempState := A, handler := Some (t2 + delay)\<rparr>"
    by (rule restart) (simp add: assms(2))
  then show ?thesis
    by (simp add: e)
qed

text \<open>
  Claim C2, for the mode hook of the application, whose delay is 300 ms. A raw decision
  that differs from the pending one replaces it, clears the timeout and sets a new one,
  due 300 ms later. After such a change at time \<open>t\<close>, whatever raw decisions arrive
  in the meantime, the committed mode does not change before \<open>t + 300\<close>: a commit
  happens only when the pending value has been the same for 300 ms. With \<open>A\<close> pending,
  a raw decision \<open>B\<close> followed by \<open>A\<close> less than 300 ms later leaves \<open>A\<close>
  pending with a new timeout and commits nothing during that time, and \<open>B\<close> is not
  committed later either unless it arrives again. A raw decision \<open>v\<close> that arrives
  at time \<open>t\<close> and is followed by \<open>v\<close> only is the committed mode from time
  \<open>t + 300\<close> on. The committed mode is always the initial value or a raw decision
  that has arrived.
\<close>

theorem mode_debounce:
  fixes s :: "AppMode debounced"
  shows
  "(v \<noteq> tempState s \<longrightarrow>
      setTempState 300 t (\<lambda>_. v) s = s\<lparr>tempState := v, handler := Some (t + 300)\<rparr>)
   \<and> (v \<noteq> tempState s \<and> (\<forall>e \<in> set evs. t \<le> fst e \<and> fst e < t + 300) \<and> T < t + 300 \<longrightarrow>
      state (elapse T (run 300 ((t, v) # evs) s)) = state (elapse t s))
   \<and> (tempState s = A \<and> A \<noteq> B \<and> t1 \<le> t2 \<and> t2 < t1 + 300 \<longrightarrow>
      run 300 [(t1, B), (t2, A)] s =
        \<lparr>state = state (elapse t1 s), tempState = A, handler = Some (t2 + 300)\<rparr>
      \<and> (state (elapse t1 s) \<noteq> B \<and> B \<notin> snd ` set evs \<longrightarrow>
           state (elapse T (run 300 ([(t1, B), (t2, A)] @ evs) s)) \<noteq> B))
   \<and> (sorted (map fst (pre @ [(t, v)])) \<and> (\<forall>e \<in> set pre. t0 \<le> fst e) \<and> t0 \<le> t
        \<and> (\<forall>e \<in> set post. snd e = v) \<and> t + 300 \<le> T \<longrightarrow>
      state (elapse T (run 300 (pre @ (t, v) # post) (useDebouncedState init 300 t0))) = v)
   \<and> state (elapse T (run 300 evs (useDebouncedState init 300 t0))) \<in> insert init (snd ` set evs)"
proof (intro conjI impI)
  assume "v \<noteq> tempState s"
  then show "setTempState 300 t (\<lambda>_. v) s = s\<lparr>tempState := v, handler := Some (t + 300)\<rparr>"
    by (rule restart)
next
  assume "v \<noteq> tempState s \<and> (\<forall>e \<in> set evs. t \<le> fst e \<and> fst e < t + 300) \<and> T < t + 300"
  then show "state (elapse T (run 300 ((t, v) # evs) s)) = state (elapse t s)"
    using no_commit_in_window [of v s evs t 300 T] by simp
next
  assume h: "tempState s = A \<and> A \<noteq> B \<and> t1 \<le> t2 \<and> t2 < t1 + 300"
  then show r: "run 300 [(t1, B), (t2, A)] s =
        \<lparr>state = state (elapse t1 s), tempState = A, handler = Some (t2 + 300)\<rparr>"
    using aba [of s A B t1 t2 300] by simp
  assume n: "state (elapse t1 s) \<noteq> B \<and> B \<notin> snd ` set evs"
  define s2 where "s2 = run 300 [(t1, B), (t2, A)] s"
  have m: "state (elapse T (run 300 evs s2))
          \<in> insert (state s2) (insert (tempState s2) (snd ` set evs))"
    by (rule committed_values)
  have st: "state s2 = state (elapse t1 s)" and tp: "tempState s2 = A"
    unfolding s2_def r by simp_all
  have "state (elapse T (run 300 evs s2)) \<noteq> B"
  proof
    assume "state (elapse T (run 300 evs s2)) = B"
    with m have "B = state (elapse t1 s) \<or> B = A \<or> B \<in> snd ` set evs"
      unfolding st tp by simp
    with n h show False by auto
  qed
  then show "state (elapse T (run 300 ([(t1, B), (t2, A)] @ evs) s)) \<noteq> B"
    unfolding s2_def by (simp only: run_append not_False_eq_True)
next
  assume "sorted (map fst (pre @ [(t, v)])) \<and> (\<forall>e \<in> set pre. t0 \<le> fst e) \<and> t0 \<le> t
        \<and> (\<forall>e \<in> set post. snd e = v) \<and> t + 300 \<le> T"
  then show "state (elapse T (run 300 (pre @ (t, v) # post) (useDebouncedState init 300 t0))) = v"
    using held_commits [of pre t v t0 post 300 T init] by simp
next
  have "state (elapse T (run 300 evs (useDebouncedState init 300 t0)))
     \<in> insert (state (useDebouncedState init 300 t0))
         (insert (tempState (useDebouncedState init 300 t0)) (snd ` set evs))"
    by (rule committed_values)
  then show "state (elapse T (run 300 evs (useDebouncedState init 300 t0)))
     \<in> insert init (snd ` set evs)"
    by (simp add: useDebouncedState_def)
qed

theorem mode_debounce_witness:
  "setTempState 300 100 (\<lambda>_. ZOOM) (useDebouncedState TREE 300 0)
       = \<lparr>state = TREE, tempState = ZOOM, handler = Some 400\<rparr>
   \<and> state (elapse 399 (run 300 [(100, ZOOM), (150, SCATTER), (200, ZOOM)]
                          (useDebouncedState TREE 300 0))) = TREE
   \<and> run 300 [(100, ZOOM), (250, TREE)] (useDebouncedState TREE 300 0)
       = \<lparr>state = TREE, tempState = TREE, handler = Some 550\<rparr>
   \<and> state (elapse 5000 (run 300 [(100, ZOOM), (250, TREE), (1000, SCATTER)]
                           (useDebouncedState TREE 300 0))) \<noteq> ZOOM
   \<and> state (elapse 433 (run 300 [(100, ZOOM), (133, SCATTER), (166, SCATTER), (200, SCATTER)]
                          (useDebouncedState TREE 300 0))) = SCATTER"
proof -
  let ?s = "useDebouncedState TREE 300 0 :: AppMode debounced"
  have ts: "tempState ?s = TREE" and es: "state (elapse 100 ?s) = TREE"
    by (simp_all add: useDebouncedState_def elapse_def)
  have 1: "setTempState 300 100 (\<lambda>_. ZOOM) ?s = ?s\<lparr>tempState := ZOOM, handler := Some (100 + 300)\<rparr>"
    using mode_debounce [where v = ZOOM and s = ?s and t = 100] ts by simp
  have w: "ZOOM \<noteq> tempState ?s
      \<and> (\<forall>e \<in> set [(150, SCATTER), (200, ZOOM)]. (100::nat) \<le> fst e \<and> fst e < 100 + 300)
      \<and> (399::nat) < 100 + 300"
    using ts by simp
  have 2: "state (elapse 399 (run 300 ((100, ZOOM) # [(150, SCATTER), (200, ZOOM)]) ?s))
            = state (elapse 100 ?s)"
    using mode_debounce [where v = ZOOM and s = ?s and t = 100 and T = 399
                           and evs = "[(150, SCATTER), (200, ZOOM)]"] w by blast
  have a: "tempState ?s = TREE \<and> TREE \<noteq> ZOOM \<and> (100::nat) \<le> 250 \<and> (250::nat) < 100 + 300"
    using ts by simp
  have 3: "run 300 [(100, ZOOM), (250, TREE)] ?s =
        \<lparr>state = state (elapse 100 ?s), tempState = TREE, handler = Some (250 + 300)\<rparr>"
    using mode_debounce [where s = ?s and A = TREE and B = ZOOM and ?t1.0 = 100 and ?t2.0 = 250] a
    by blast
  have b: "state (elapse 100 ?s) \<noteq> ZOOM \<and> ZOOM \<notin> snd ` set [(1000::nat, SCATTER)]"
    using es by simp
  have 4: "state (elapse 5000 (run 300 ([(100, ZOOM), (250, TREE)] @ [(1000, SCATTER)]) ?s)) \<noteq> ZOOM"
    using mode_debounce [where s = ?s and A = TREE and B = ZOOM and ?t1.0 = 100 and ?t2.0 = 250
                           and evs = "[(1000, SCATTER)]" and T = 5000] a b by blast
  have c: "sorted (map fst ([(100::nat, ZOOM)] @ [(133, SCATTER)]))
        \<and> (\<forall>e \<in> set [(100::nat, ZOOM)]. 0 \<le> fst e) \<and> (0::nat) \<le> 133
        \<and> (\<forall>e \<in> set [(166::nat, SCATTER), (200, SCATTER)]. snd e = SCATTER)
        \<and> (133::nat) + 300 \<le> 433"
    by simp
  have 5: "state (elapse 433 (run 300 ([(100, ZOOM)] @ (133, SCATTER) # [(166, SCATTER), (200, SCATTER)])
                 (useDebouncedState TREE 300 0))) = SCATTER"
    using mode_debounce [where pre = "[(100, ZOOM)]" and t = 133 and v = SCATTER and ?t0.0 = 0
           and post = "[(166, SCATTER), (200, SCATTER)]" and T = 433 and init = TREE] c by blast
  from 1 2 3 4 5 es show ?thesis
    by (simp add: useDebouncedState_def)
qed

section \<open>The application\<close>

lemma filter_photo_generateParticles:
  "filter (\<lambda>p. type p = photo) (generateParticles urls rnd) =
     map (\<lambda>j. photoParticle urls j rnd (3 * j)) [0..<length urls]"
proof -
  obtain orn where g: "generateParticles urls rnd =
           map (\<lambda>j. photoParticle urls j rnd (3 * j)) [0..<length urls] @ orn @ [topStar]"
    and ty: "list_all (\<lambda>q. ornamentType (type q)) orn"
    using generateParticles_shape by blast
  have o: "filter (\<lambda>p. type p = photo) orn = []"
    by (rule filter_none) (use ty in \<open>auto simp: list_all_iff ornamentType_def\<close>)
  show ?thesis
    by (simp add: g o filter_map o_def photoParticle_type topStar_type)
qed

lemma dot_normalize_self:
  assumes "vlength v \<noteq> 0"
  shows "dot (vnormalize v) (vnormalize v) = 1"
proof -
  obtain x y z where v: "v = (x, y, z)" by (cases v)
  define l where "l = sqrt (x * x + y * y + z * z)"
  have l: "l \<noteq> 0" using assms by (simp add: v vlength_def l_def)
  have nn: "0 \<le> x * x + y * y + z * z" by simp
  have ll: "l * l = x * x + y * y + z * z"
    unfolding l_def using nn by simp
  have vl: "vlength v = l" by (simp add: v vlength_def l_def)
  have n: "vnormalize v = (x * (1 / l), y * (1 / l), z * (1 / l))"
    using l by (simp add: vnormalize_def vl divideScalar_def) (simp add: v multiplyScalar_def)
  have "dot (vnormalize v) (vnormalize v) = (x * x + y * y + z * z) * ((1 / l) * (1 / l))"
    unfolding n by (simp add: dot_def algebra_simps)
  also have "\<dots> = (l * l) * ((1 / l) * (1 / l))" by (simp only: ll)
  also have "\<dots> = 1" using l by simp
  finally show ?thesis .
qed

lemma sample_treePos_length:
  "vlength (treePos (photoParticle [''blob:a''] 0 zeroDraws 0)) \<noteq> 0"
proof -
  obtain x z where t: "treePos (photoParticle [''blob:a''] 0 zeroDraws 0) = (x, - 8.64, z)"
    by (simp add: photoParticle_def photoT_def HEIGHT_def Let_def)
  have "0 < x * x + 8.64 * 8.64 + z * z"
    by (rule add_pos_nonneg, rule add_nonneg_pos) simp_all
  then have "0 < sqrt (x * x + 8.64 * 8.64 + z * z)" by (simp only: real_sqrt_gt_0_iff)
  then show ?thesis by (simp add: t vlength_def)
qed

lemma modeHook_focusFrame [simp]: "modeHook (focusFrame cam a) = modeHook a"
  by (simp add: focusFrame_def split: focus_call.splits)

lemma modeHook_handlePhotoUpload [simp]: "modeHook (handlePhotoUpload new rnd a) = modeHook a"
  by (simp add: handlePhotoUpload_def Let_def)

lemma focusedApp_state:
  "hoveredPhotoId focusedApp = Some ''p-photo-0''
   \<and> modeHook focusedApp = useDebouncedState TREE 300 0
   \<and> photos focusedApp = [''blob:a'']
   \<and> particles focusedApp = generateParticles [''blob:a''] zeroDraws"
proof -
  let ?q = "photoParticle [''blob:a''] 0 zeroDraws 0"
  let ?a = "handlePhotoUpload [''blob:a''] zeroDraws (mount 0 zeroDraws)"
  have pa: "particles ?a = generateParticles [''blob:a''] zeroDraws"
    and ph: "photos ?a = [''blob:a'']" and h0: "hoveredPhotoId ?a = None"
    by (simp_all add: handlePhotoUpload_def mount_def Let_def)
  have mh: "modeHook ?a = useDebouncedState TREE 300 0"
    by (simp add: mount_def)
  have am: "appMode ?a = TREE"
    by (simp add: appMode_def mount_def useDebouncedState_def)
  have fl: "filter (\<lambda>p. type p = photo) (particles ?a) = [?q]"
    by (simp add: pa filter_photo_generateParticles)
  have "TREE \<noteq> ZOOM" "filter (\<lambda>p. type p = photo) (particles ?a) \<noteq> []"
    by (simp_all add: fl)
  from FocusManager_candidate [OF this, of "treePos ?q"]
  obtain xs q ys where h: "filter (\<lambda>p. type p = photo) (particles ?a) = xs @ q # ys"
    "FocusManager (particles ?a) TREE (treePos ?q) =
       onFocusChange (if dot (vnormalize (treePos ?q)) (vnormalize (restPos TREE q)) > 0.65
                      then Some (pid q) else None)"
    by blast
  have q: "q = ?q" using h(1) fl by (simp add: Cons_eq_append_conv)
  have r: "restPos TREE ?q = treePos ?q"
    by (cases "treePos ?q"; cases "scatterPos ?q") (simp add: restPos_def)
  have one: "dot (vnormalize (treePos ?q)) (vnormalize (restPos TREE ?q)) = 1"
    unfolding r using sample_treePos_length by (rule dot_normalize_self)
  have "FocusManager (particles ?a) TREE (treePos ?q) = onFocusChange (Some (pid ?q))"
    using h(2) unfolding q one by simp
  then have f: "focusedApp = ?a\<lparr>hoveredPhotoId := Some (pid ?q)\<rparr>"
    by (simp add: focusedApp_def focusFrame_def am)
  have id: "pid ?q = ''p-photo-0''"
    by (simp add: photoParticle_def Let_def toString.simps digit_def)
  have mh0: "modeHook (mount 0 zeroDraws) = useDebouncedState TREE 300 0"
    by (simp add: mount_def)
  show ?thesis
    by (simp add: f id mh0 ph pa)
qed

lemma zoomedApp_state:
  "hoveredPhotoId zoomedApp = Some ''p-photo-0'' \<and> appMode zoomedApp = ZOOM
   \<and> photos zoomedApp = [''blob:a'']"
  using focusedApp_state
  by (simp add: zoomedApp_def tick_def handleGestureUpdate_def samplePinch_def appMode_def
        setTempState_def elapse_def timeout_def useDebouncedState_def transition_def Let_def)

lemma transition_table:
  "transition h Closed_Fist m = (if m \<noteq> ZOOM \<and> truthy h then ZOOM else TREE)
   \<and> transition h Open_Palm m = SCATTER
   \<and> transition h Pinch m = ZOOM
   \<and> transition h Pointing_Up m = TREE
   \<and> transition h Unknown m = TREE"
  by (simp add: transition_def)

lemma handleGestureUpdate_pending:
  "tempState (modeHook (handleGestureUpdate now d a)) =
     transition (hoveredPhotoId a) (gesture d) (tempState (modeHook a))
   \<and> appMode (handleGestureUpdate now d a) = appMode a
   \<and> hoveredPhotoId (handleGestureUpdate now d a) = hoveredPhotoId a"
  by (simp add: handleGestureUpdate_def appMode_def setTempState_def Let_def)

text \<open>
  Claim C1, evaluated on the code. In \<open>focusedApp\<close> the committed mode is tree and the
  focus id is \<open>p-photo-0\<close>. A closed-fist sample at 1000 ms makes the pending mode
  zoom. At 1033 ms the committed mode is still tree and the focus id is still set, so
  the transition table gives zoom for a second closed-fist sample; the code gives tree,
  because the function passed to \<open>setMode\<close> receives the pending mode (zoom), not the
  committed one. The zoom is never committed.
\<close>

theorem closed_fist_reads_pending:
  "appMode (tick 1033 (handleGestureUpdate 1000 sampleFist (tick 1000 focusedApp))) = TREE
   \<and> hoveredPhotoId (tick 1033 (handleGestureUpdate 1000 sampleFist (tick 1000 focusedApp)))
       = Some ''p-photo-0''
   \<and> tempState (modeHook (tick 1033 (handleGestureUpdate 1000 sampleFist (tick 1000 focusedApp))))
       = ZOOM
   \<and> tempState (modeHook (handleGestureUpdate 1033 sampleFist
        (tick 1033 (handleGestureUpdate 1000 sampleFist (tick 1000 focusedApp))))) = TREE
   \<and> appMode (tick 1400 (handleGestureUpdate 1033 sampleFist
        (tick 1033 (handleGestureUpdate 1000 sampleFist (tick 1000 focusedApp))))) = TREE"
  using focusedApp_state
  by (simp add: handleGestureUpdate_def tick_def appMode_def setTempState_def
        elapse_def timeout_def useDebouncedState_def transition_def truthy_def sampleFist_def Let_def)

text \<open>
  The same in zoom mode: while the committed mode is zoom, a first closed-fist sample
  gives tree and the next one gives zoom again.
\<close>

lemma zoom_fist_reads_pending:
  "appMode (handleGestureUpdate 1000 sampleFist (tick 1000 zoomedApp)) = ZOOM
   \<and> tempState (modeHook (handleGestureUpdate 1000 sampleFist (tick 1000 zoomedApp))) = TREE
   \<and> tempState (modeHook (handleGestureUpdate 1033 sampleFist
        (tick 1033 (handleGestureUpdate 1000 sampleFist (tick 1000 zoomedApp))))) = ZOOM"
  using focusedApp_state
  by (simp add: zoomedApp_def samplePinch_def handleGestureUpdate_def tick_def appMode_def setTempState_def
        elapse_def timeout_def useDebouncedState_def transition_def truthy_def sampleFist_def Let_def)

lemma ornamentLoop_all:
  "\<forall>i k. P (fst (ornamentParticle i rnd k)) \<Longrightarrow> list_all P ps
     \<Longrightarrow> list_all P (fst (ornamentLoop rnd i k ps))"
proof (induction rnd i k ps rule: ornamentLoop.induct)
  case (1 rnd i k ps)
  show ?case
  proof (cases "i < COUNT")
    case True
    obtain p k' where pk: "ornamentParticle i rnd k = (p, k')"
      by (cases "ornamentParticle i rnd k")
    have "P (fst (ornamentParticle i rnd k))" using "1.prems"(1) by blast
    then have "P p" by (simp add: pk)
    then have "list_all P (ps @ [p])" using "1.prems"(2) by simp
    from "1.IH" [OF True pk [symmetric] "1.prems"(1) this]
    have "list_all P (fst (ornamentLoop rnd (i + 1) k' (ps @ [p])))" .
    moreover have "ornamentLoop rnd i k ps = ornamentLoop rnd (i + 1) k' (ps @ [p])"
      using True pk by (subst ornamentLoop.simps) simp
    ultimately show ?thesis by simp
  next
    case False
    then show ?thesis using "1.prems"(2) by (subst ornamentLoop.simps) simp
  qed
qed

lemma generateParticles_front:
  "\<exists>front. generateParticles urls rnd = front @ [topStar]
           \<and> list_all (\<lambda>q. pid q \<noteq> ''star'') front"
proof -
  define P where "P = (if length urls > 0 then photoLoop urls rnd 0 0 [] else ([], 0))"
  have P: "fst P = map (\<lambda>j. photoParticle urls j rnd (3 * j)) [0..<length urls]"
    by (simp add: P_def photoLoop_eq)
  have 1: "list_all (\<lambda>q. pid q \<noteq> ''star'') (fst P)"
    by (simp add: P list_all_iff photoParticle_def Let_def)
  have 2: "\<forall>i k. pid (fst (ornamentParticle i rnd k)) \<noteq> ''star''"
    by (simp add: ornamentParticle_def Let_def split: prod.splits)
  have 3: "list_all (\<lambda>q. pid q \<noteq> ''star'') (fst (ornamentLoop rnd 0 (snd P) (fst P)))"
    using 2 1 by (rule ornamentLoop_all)
  have "generateParticles urls rnd = fst (ornamentLoop rnd 0 (snd P) (fst P)) @ [topStar]"
    unfolding generateParticles_def P_def [symmetric]
    by (simp add: Let_def split: prod.splits)
  with 3 show ?thesis by blast
qed

lemma find_last:
  "list_all (\<lambda>y. \<not> P y) xs \<Longrightarrow> P x \<Longrightarrow> find P (xs @ [x]) = Some x"
  by (induction xs) auto

lemma Visuals_render_fst: "map fst (Visuals_render ps insts) = ps"
  by (induction ps) (auto simp: Visuals_render_def split: option.splits)

lemma Visuals_render_nth:
  assumes "i < length ps"
  shows "Visuals_render ps insts ! i =
     (case find (\<lambda>(q, g). pid q = pid (ps ! i)) insts of
        None \<Rightarrow> (ps ! i, mountGroup (ps ! i))
      | Some (q, g) \<Rightarrow> (ps ! i, updateGroup q (ps ! i) g))"
  using assms by (simp add: Visuals_render_def)

lemma updateGroup_keeps:
  "o_scale (updateGroup q p g) = o_scale g \<and> o_rotation (updateGroup q p g) = o_rotation g
   \<and> o_position (updateGroup q p g) = (if treePos p = treePos q then o_position g else treePos p)"
  by (simp add: updateGroup_def)

lemma star_frame:
  "ParticleInstance topStar ZOOM (Some ''p-photo-0'') 0 0.1 (0, 0, 10) (Some (mountGroup topStar))
     = Some \<lparr> o_position = (0, 9.75, - 10), o_rotation = (0, 0.05, 0),
              o_scale = (1.125, 1.125, 1.125) \<rparr>"
  by (simp add: ParticleInstance_def poseTarget_def lerpSpeed_def isSelected_def isCandidate_def
        isHighlighted_def isPhoto_def spins_def topStar_def mountGroup_def vlerp_def lerp_def
        HEIGHT_def Let_def)

lemma sampleInstances_star:
  "\<exists>front. sampleInstances = front @
       [(topStar, \<lparr> o_position = (0, 9.75, - 10), o_rotation = (0, 0.05, 0),
                    o_scale = (1.125, 1.125, 1.125) \<rparr>)]
     \<and> list_all (\<lambda>(q, g). pid q \<noteq> ''star'') front"
proof -
  obtain front where f: "generateParticles [''blob:a''] zeroDraws = front @ [topStar]"
    and n: "list_all (\<lambda>q. pid q \<noteq> ''star'') front"
    using generateParticles_front by blast
  have p: "particles zoomedApp = front @ [topStar]"
    using focusedApp_state
    by (simp add: zoomedApp_def tick_def handleGestureUpdate_def f)
  let ?F = "\<lambda>(p, g). (p, case ParticleInstance p ZOOM (Some ''p-photo-0'') 0 0.1 (0, 0, 10) (Some g) of
                           None \<Rightarrow> g | Some g' \<Rightarrow> g')"
  let ?M = "\<lambda>p. (p, mountGroup p)"
  have r: "Visuals_render (front @ [topStar]) [] = map ?M front @ [(topStar, mountGroup topStar)]"
    by (simp add: Visuals_render_def)
  have e: "?F (topStar, mountGroup topStar) =
       (topStar, \<lparr> o_position = (0, 9.75, - 10), o_rotation = (0, 0.05, 0),
                    o_scale = (1.125, 1.125, 1.125) \<rparr>)"
    by (simp add: star_frame)
  have "sampleInstances = map ?F (map ?M front) @ [?F (topStar, mountGroup topStar)]"
    by (simp add: sampleInstances_def Visuals_frame_def p r)
  then have a: "sampleInstances = map ?F (map ?M front) @
       [(topStar, \<lparr> o_position = (0, 9.75, - 10), o_rotation = (0, 0.05, 0),
                    o_scale = (1.125, 1.125, 1.125) \<rparr>)]"
    unfolding e .
  have b: "list_all (\<lambda>(q, g). pid q \<noteq> ''star'') (map ?F (map ?M front))"
    using n by (simp add: list_all_iff)
  from a b show ?thesis by (intro exI conjI)
qed

lemma ornamentLoop_pids:
  "map pid (fst (ornamentLoop rnd i k ps)) =
     map pid ps @ map (\<lambda>j. ''p-'' @ toString j) [i..<COUNT]"
proof (induction rnd i k ps rule: ornamentLoop.induct)
  case (1 rnd i k ps)
  show ?case
  proof (cases "i < COUNT")
    case True
    obtain p k' where pk: "ornamentParticle i rnd k = (p, k')"
      by (cases "ornamentParticle i rnd k")
    have "pid (fst (ornamentParticle i rnd k)) = ''p-'' @ toString i"
      by (simp add: ornamentParticle_def Let_def split: prod.splits)
    then have pp: "pid p = ''p-'' @ toString i" by (simp add: pk)
    have up: "[i..<COUNT] = i # [i + 1..<COUNT]"
      using True by (simp add: upt_conv_Cons)
    have "ornamentLoop rnd i k ps = ornamentLoop rnd (i + 1) k' (ps @ [p])"
      using True pk by (subst ornamentLoop.simps) simp
    then have "map pid (fst (ornamentLoop rnd i k ps)) =
        map pid (ps @ [p]) @ map (\<lambda>j. ''p-'' @ toString j) [i + 1..<COUNT]"
      using "1.IH" [OF True pk [symmetric]] by simp
    then show ?thesis unfolding up by (simp add: pp)
  next
    case False
    then show ?thesis by (subst ornamentLoop.simps) simp
  qed
qed

lemma generateParticles_pids:
  "map pid (generateParticles urls rnd) =
     map (\<lambda>j. ''p-photo-'' @ toString j) [0..<length urls]
       @ map (\<lambda>j. ''p-'' @ toString j) [0..<COUNT] @ [''star'']"
proof -
  define P where "P = (if length urls > 0 then photoLoop urls rnd 0 0 [] else ([], 0))"
  have P: "fst P = map (\<lambda>j. photoParticle urls j rnd (3 * j)) [0..<length urls]"
    by (simp add: P_def photoLoop_eq)
  have 1: "map pid (fst P) = map (\<lambda>j. ''p-photo-'' @ toString j) [0..<length urls]"
    by (simp add: P photoParticle_def Let_def o_def)
  have "generateParticles urls rnd = fst (ornamentLoop rnd 0 (snd P) (fst P)) @ [topStar]"
    unfolding generateParticles_def P_def [symmetric]
    by (simp add: Let_def split: prod.splits)
  then show ?thesis
    by (simp add: ornamentLoop_pids 1 topStar_def)
qed

text \<open>
  Claim C9 as stated fails, for the focus id and for the live transforms. In
  \<open>zoomedApp\<close> the focus id is \<open>p-photo-0\<close>, and after the upload of one more photo
  it still is, also after the next frame of the focus selector. After one frame the
  group of the topper has moved, grown and turned; after the upload and the rendering
  of the regenerated particle set the topper has the same group with the same
  transform, not that of a new group.
\<close>

theorem upload_keeps_focus_and_transforms:
  "hoveredPhotoId zoomedApp = Some ''p-photo-0''
   \<and> hoveredPhotoId (handlePhotoUpload [''blob:b''] zeroDraws zoomedApp) = Some ''p-photo-0''
   \<and> hoveredPhotoId (handlePhotoUpload [''blob:b''] zeroDraws zoomedApp) \<noteq> None
   \<and> hoveredPhotoId (focusFrame (0, 0, 10) (handlePhotoUpload [''blob:b''] zeroDraws zoomedApp))
       = Some ''p-photo-0''
   \<and> last sampleInstances =
       (topStar, \<lparr> o_position = (0, 9.75, - 10), o_rotation = (0, 0.05, 0),
                    o_scale = (1.125, 1.125, 1.125) \<rparr>)
   \<and> last (Visuals_render (particles (handlePhotoUpload [''blob:b''] zeroDraws zoomedApp))
             sampleInstances) =
       (topStar, \<lparr> o_position = (0, 9.75, - 10), o_rotation = (0, 0.05, 0),
                    o_scale = (1.125, 1.125, 1.125) \<rparr>)
   \<and> o_scale (snd (last (Visuals_render
         (particles (handlePhotoUpload [''blob:b''] zeroDraws zoomedApp)) sampleInstances)))
       \<noteq> o_scale (mountGroup topStar)
   \<and> o_rotation (snd (last (Visuals_render
         (particles (handlePhotoUpload [''blob:b''] zeroDraws zoomedApp)) sampleInstances)))
       \<noteq> o_rotation (mountGroup topStar)"
proof -
  let ?a = "handlePhotoUpload [''blob:b''] zeroDraws zoomedApp"
  let ?g = "\<lparr> o_position = (0, 9.75, - 10), o_rotation = (0, 0.05, 0),
               o_scale = (1.125, 1.125, 1.125) \<rparr>"
  have h: "hoveredPhotoId ?a = Some ''p-photo-0''"
    using zoomedApp_state by (simp add: handlePhotoUpload_def Let_def)
  have "appMode ?a = ZOOM"
    using zoomedApp_state by (simp add: appMode_def)
  then have f: "focusFrame (0, 0, 10) ?a = ?a"
    by (simp add: focusFrame_def FocusManager_zoom)
  obtain front where s: "sampleInstances = front @ [(topStar, ?g)]"
    and n: "list_all (\<lambda>(q, g). pid q \<noteq> ''star'') front"
    using sampleInstances_star by blast
  have l1: "last sampleInstances = (topStar, ?g)" by (simp add: s)
  have fs: "find (\<lambda>(q, g). pid q = ''star'') sampleInstances = Some (topStar, ?g)"
    unfolding s
    by (rule find_last) (use n in \<open>auto simp: list_all_iff topStar_def\<close>)
  have pa: "particles ?a = generateParticles [''blob:a'', ''blob:b''] zeroDraws"
    using zoomedApp_state by (simp add: handlePhotoUpload_def Let_def)
  obtain front' where g: "generateParticles [''blob:a'', ''blob:b''] zeroDraws = front' @ [topStar]"
    using generateParticles_front by blast
  have "last (Visuals_render (particles ?a) sampleInstances) =
          (case find (\<lambda>(q, g). pid q = pid topStar) sampleInstances of
             None \<Rightarrow> (topStar, mountGroup topStar)
           | Some (q, g) \<Rightarrow> (topStar, updateGroup q topStar g))"
    by (simp add: pa g Visuals_render_def)
  also have "pid topStar = ''star''" by (simp add: topStar_def)
  finally have l2: "last (Visuals_render (particles ?a) sampleInstances) = (topStar, ?g)"
    by (simp add: fs updateGroup_def)
  have d: "o_scale ?g \<noteq> o_scale (mountGroup topStar)" "o_rotation ?g \<noteq> o_rotation (mountGroup topStar)"
    by (simp_all add: mountGroup_def)
  show ?thesis
    using h f l1 d zoomedApp_state unfolding l2 by simp
qed

text \<open>
  Claim C9, amended. An upload appends the new photos to the list. If the list is then
  not empty, the particle set becomes the result of the layout generator for the whole
  list, with one photo particle for each photo of the list, old and new, in order, and
  with ids that depend on the number of photos only, so that every ornament, the topper
  and every photo that was there before keeps its id. If the list is empty, the
  particle set stays. The upload leaves the focus id, the mode and the hand position as
  they are. The scene then has one instance for each particle of the set. A particle
  whose id was mounted keeps its group: scale and rotation are as they were, and so is
  the position unless the tree rest position of the particle has changed, in which case
  the position is the new tree rest position. Only a particle whose id was not mounted
  starts from a new group. In particular the topper keeps its whole live transform.
\<close>

theorem upload_regenerates:
  "photos (handlePhotoUpload new rnd a) = photos a @ new
   \<and> (photos a @ new \<noteq> [] \<longrightarrow>
        particles (handlePhotoUpload new rnd a) = generateParticles (photos a @ new) rnd
      \<and> map textureUrl (filter (\<lambda>p. type p = photo) (particles (handlePhotoUpload new rnd a)))
          = map Some (photos a @ new)
      \<and> map pid (particles (handlePhotoUpload new rnd a)) =
          map (\<lambda>j. ''p-photo-'' @ toString j) [0..<length (photos a @ new)]
            @ map (\<lambda>j. ''p-'' @ toString j) [0..<COUNT] @ [''star''])
   \<and> (photos a @ new = [] \<longrightarrow> particles (handlePhotoUpload new rnd a) = particles a)
   \<and> hoveredPhotoId (handlePhotoUpload new rnd a) = hoveredPhotoId a
   \<and> modeHook (handlePhotoUpload new rnd a) = modeHook a
   \<and> handPos (handlePhotoUpload new rnd a) = handPos a
   \<and> map fst (Visuals_render (particles (handlePhotoUpload new rnd a)) insts)
       = particles (handlePhotoUpload new rnd a)
   \<and> (\<forall>i < length (particles (handlePhotoUpload new rnd a)).
        (\<forall>q g. find (\<lambda>(q, g). pid q = pid (particles (handlePhotoUpload new rnd a) ! i)) insts
                  = Some (q, g) \<longrightarrow>
           o_scale (snd (Visuals_render (particles (handlePhotoUpload new rnd a)) insts ! i))
             = o_scale g
         \<and> o_rotation (snd (Visuals_render (particles (handlePhotoUpload new rnd a)) insts ! i))
             = o_rotation g
         \<and> o_position (snd (Visuals_render (particles (handlePhotoUpload new rnd a)) insts ! i))
             = (if treePos (particles (handlePhotoUpload new rnd a) ! i) = treePos q
                then o_position g else treePos (particles (handlePhotoUpload new rnd a) ! i)))
      \<and> (find (\<lambda>(q, g). pid q = pid (particles (handlePhotoUpload new rnd a) ! i)) insts = None
           \<longrightarrow> snd (Visuals_render (particles (handlePhotoUpload new rnd a)) insts ! i)
                 = mountGroup (particles (handlePhotoUpload new rnd a) ! i)))
   \<and> (photos a @ new \<noteq> [] \<and> find (\<lambda>(q, g). pid q = ''star'') insts = Some (topStar, g0) \<longrightarrow>
        last (Visuals_render (particles (handlePhotoUpload new rnd a)) insts) = (topStar, g0))"
proof -
  let ?a = "handlePhotoUpload new rnd a"
  let ?u = "photos a @ new"
  have ph: "photos ?a = ?u"
    and fr: "hoveredPhotoId ?a = hoveredPhotoId a" "modeHook ?a = modeHook a" "handPos ?a = handPos a"
    by (simp_all add: handlePhotoUpload_def Let_def)
  have e: "?u = [] \<longrightarrow> particles ?a = particles a"
    by (simp add: handlePhotoUpload_def Let_def)
  have g: "?u \<noteq> [] \<longrightarrow>
        particles ?a = generateParticles ?u rnd
      \<and> map textureUrl (filter (\<lambda>p. type p = photo) (particles ?a)) = map Some ?u
      \<and> map pid (particles ?a) =
          map (\<lambda>j. ''p-photo-'' @ toString j) [0..<length ?u]
            @ map (\<lambda>j. ''p-'' @ toString j) [0..<COUNT] @ [''star'']"
  proof
    assume n: "?u \<noteq> []"
    then have pa: "particles ?a = generateParticles ?u rnd"
      by (simp add: handlePhotoUpload_def Let_def)
    have "map textureUrl (filter (\<lambda>p. type p = photo) (generateParticles ?u rnd))
            = map (\<lambda>j. Some (?u ! j)) [0..<length ?u]"
      by (simp add: filter_photo_generateParticles photoParticle_def Let_def o_def)
    also have "\<dots> = map Some (map (\<lambda>j. ?u ! j) [0..<length ?u])"
      by (simp add: o_def)
    also have "\<dots> = map Some ?u"
      by (simp only: map_nth)
    finally have t: "map textureUrl (filter (\<lambda>p. type p = photo) (particles ?a)) = map Some ?u"
      by (simp add: pa)
    have i: "map pid (particles ?a) =
          map (\<lambda>j. ''p-photo-'' @ toString j) [0..<length ?u]
            @ map (\<lambda>j. ''p-'' @ toString j) [0..<COUNT] @ [''star'']"
      unfolding pa by (rule generateParticles_pids)
    from pa t i show "particles ?a = generateParticles ?u rnd
      \<and> map textureUrl (filter (\<lambda>p. type p = photo) (particles ?a)) = map Some ?u
      \<and> map pid (particles ?a) =
          map (\<lambda>j. ''p-photo-'' @ toString j) [0..<length ?u]
            @ map (\<lambda>j. ''p-'' @ toString j) [0..<COUNT] @ [''star'']"
      by (intro conjI)
  qed
  have m: "map fst (Visuals_render (particles ?a) insts) = particles ?a"
    by (rule Visuals_render_fst)
  have k: "\<forall>i < length (particles ?a).
        (\<forall>q g. find (\<lambda>(q, g). pid q = pid (particles ?a ! i)) insts = Some (q, g) \<longrightarrow>
           o_scale (snd (Visuals_render (particles ?a) insts ! i)) = o_scale g
         \<and> o_rotation (snd (Visuals_render (particles ?a) insts ! i)) = o_rotation g
         \<and> o_position (snd (Visuals_render (particles ?a) insts ! i))
             = (if treePos (particles ?a ! i) = treePos q
                then o_position g else treePos (particles ?a ! i)))
      \<and> (find (\<lambda>(q, g). pid q = pid (particles ?a ! i)) insts = None
           \<longrightarrow> snd (Visuals_render (particles ?a) insts ! i) = mountGroup (particles ?a ! i))"
    by (simp add: Visuals_render_nth updateGroup_keeps)
  have s: "?u \<noteq> [] \<and> find (\<lambda>(q, g). pid q = ''star'') insts = Some (topStar, g0) \<longrightarrow>
        last (Visuals_render (particles ?a) insts) = (topStar, g0)"
  proof
    assume h: "?u \<noteq> [] \<and> find (\<lambda>(q, g). pid q = ''star'') insts = Some (topStar, g0)"
    then have pa: "particles ?a = generateParticles ?u rnd"
      by (simp add: handlePhotoUpload_def Let_def)
    obtain front where f: "generateParticles ?u rnd = front @ [topStar]"
      using generateParticles_front by blast
    have "last (Visuals_render (particles ?a) insts) =
          (case find (\<lambda>(q, g). pid q = pid topStar) insts of
             None \<Rightarrow> (topStar, mountGroup topStar)
           | Some (q, g) \<Rightarrow> (topStar, updateGroup q topStar g))"
      by (simp add: pa f Visuals_render_def)
    also have "pid topStar = ''star''" by (simp add: topStar_def)
    finally show "last (Visuals_render (particles ?a) insts) = (topStar, g0)"
      using h by (simp add: updateGroup_def)
  qed
  from ph g e fr m k s show ?thesis by (intro conjI)
qed

theorem upload_regenerates_witness:
  "photos zoomedApp @ [''blob:b''] \<noteq> []
   \<and> particles (handlePhotoUpload [''blob:b''] zeroDraws zoomedApp)
       = generateParticles [''blob:a'', ''blob:b''] zeroDraws
   \<and> photos (mount 0 zeroDraws) @ [] = []
   \<and> particles (handlePhotoUpload [] zeroDraws (mount 0 zeroDraws)) = particles (mount 0 zeroDraws)
   \<and> (0::nat) < length (particles (handlePhotoUpload [''blob:b''] zeroDraws zoomedApp))
   \<and> snd (Visuals_render (particles (handlePhotoUpload [''blob:b''] zeroDraws zoomedApp)) [] ! 0)
       = mountGroup (particles (handlePhotoUpload [''blob:b''] zeroDraws zoomedApp) ! 0)
   \<and> find (\<lambda>(q, g). pid q = ''star'') [(topStar, mountGroup sampleBall)]
       = Some (topStar, mountGroup sampleBall)
   \<and> last (Visuals_render (particles (handlePhotoUpload [''blob:b''] zeroDraws zoomedApp))
             [(topStar, mountGroup sampleBall)]) = (topStar, mountGroup sampleBall)
   \<and> o_scale (snd (Visuals_render (particles (handlePhotoUpload [''blob:b''] zeroDraws zoomedApp))
             [(samplePhoto, mountGroup sampleBall)] ! 0)) = (1, 1, 1)"
proof -
  let ?a = "handlePhotoUpload [''blob:b''] zeroDraws zoomedApp"
  have h: "photos zoomedApp @ [''blob:b''] \<noteq> []" by simp
  have z: "photos zoomedApp = [''blob:a'']" using zoomedApp_state by simp
  have e: "photos (mount 0 zeroDraws) @ [] = []" by (simp add: mount_def)
  note w = upload_regenerates [where new = "[''blob:b'']" and rnd = zeroDraws and a = zoomedApp]
  have 1: "particles ?a = generateParticles (photos zoomedApp @ [''blob:b'']) zeroDraws"
    and ids: "map pid (particles ?a) =
          map (\<lambda>j. ''p-photo-'' @ toString j) [0..<length (photos zoomedApp @ [''blob:b''])]
            @ map (\<lambda>j. ''p-'' @ toString j) [0..<COUNT] @ [''star'']"
    using w h by blast+
  have 2: "particles (handlePhotoUpload [] zeroDraws (mount 0 zeroDraws))
       = particles (mount 0 zeroDraws)"
    using upload_regenerates [where new = "[]" and rnd = zeroDraws and a = "mount 0 zeroDraws"] e
    by blast
  have "length (map pid (particles ?a)) = 2 + COUNT + 1"
    unfolding ids by (simp add: z)
  then have l: "(0::nat) < length (particles ?a)" by simp
  have "map pid (particles ?a) ! 0 = ''p-photo-0''"
    unfolding ids by (simp add: z nth_append toString.simps digit_def)
  then have p0: "pid (particles ?a ! 0) = ''p-photo-0''"
    using l by simp
  have "find (\<lambda>(q, g). pid q = pid (particles ?a ! 0)) [] = None" by simp
  then have 3: "snd (Visuals_render (particles ?a) [] ! 0) = mountGroup (particles ?a ! 0)"
    using upload_regenerates [where new = "[''blob:b'']" and rnd = zeroDraws and a = zoomedApp
                                and insts = "[]"] l by blast
  have f: "find (\<lambda>(q, g). pid q = ''star'') [(topStar, mountGroup sampleBall)]
       = Some (topStar, mountGroup sampleBall)"
    by (simp add: topStar_def)
  have 4: "last (Visuals_render (particles ?a) [(topStar, mountGroup sampleBall)])
       = (topStar, mountGroup sampleBall)"
    using upload_regenerates [where new = "[''blob:b'']" and rnd = zeroDraws and a = zoomedApp
        and insts = "[(topStar, mountGroup sampleBall)]" and ?g0.0 = "mountGroup sampleBall"] h f
    by blast
  have "find (\<lambda>(q, g). pid q = pid (particles ?a ! 0)) [(samplePhoto, mountGroup sampleBall)]
          = Some (samplePhoto, mountGroup sampleBall)"
    by (simp add: p0 samplePhoto_def)
  then have "o_scale (snd (Visuals_render (particles ?a) [(samplePhoto, mountGroup sampleBall)] ! 0))
          = o_scale (mountGroup sampleBall)"
    using upload_regenerates [where new = "[''blob:b'']" and rnd = zeroDraws and a = zoomedApp
        and insts = "[(samplePhoto, mountGroup sampleBall)]"] l by blast
  then have 5: "o_scale (snd (Visuals_render (particles ?a) [(samplePhoto, mountGroup sampleBall)] ! 0))
          = (1, 1, 1)"
    by (simp add: mountGroup_def)
  from h 1 e 2 l 3 f 4 5 show ?thesis by (simp add: z)
qed

end
